theory Spec2Isabelle
  imports Complex_Main "HOL-Library.AList" "HOL-Library.Sublist"
begin

section \<open>JavaScript values and objects\<close>

text \<open>
  The schema compiler of \<^verbatim>\<open>src/webapp.ts\<close> works on plain JavaScript objects: rows of a
  sheet, property maps of fields, models, packages.  An object is modelled by the list of
  its own enumerable properties in insertion order, which is the order of \<^verbatim>\<open>for..in\<close> and
  \<^verbatim>\<open>Object.keys\<close> for keys that are not array indices.  Keys of an object are distinct;
  assignment replaces the value of an existing key in place and appends a new key at the
  end.  Property names are taken to be different from the members that every object
  inherits from \<^verbatim>\<open>Object.prototype\<close>, so a lookup is a lookup among the own properties.

  Numbers are IEEE doubles in the source; a finite double is modelled by its exact
  rational value.
\<close>

datatype jsval =
    JUndefined
  | JStr string
  | JNum rat
  | JBool bool
  | JObj "(string \<times> jsval) list"

type_synonym 'a obj = "(string \<times> 'a) list"

abbreviation obj_get :: "'a obj \<Rightarrow> string \<Rightarrow> 'a option" where
  "obj_get ob k \<equiv> map_of ob k"

abbreviation obj_set :: "string \<Rightarrow> 'a \<Rightarrow> 'a obj \<Rightarrow> 'a obj" where
  "obj_set k v ob \<equiv> AList.update k v ob"

abbreviation obj_del :: "string \<Rightarrow> 'a obj \<Rightarrow> 'a obj" where
  "obj_del k ob \<equiv> AList.delete k ob"

abbreviation obj_keys :: "'a obj \<Rightarrow> string list" where
  "obj_keys ob \<equiv> map fst ob"

type_synonym props = "jsval obj"
type_synonym fields = "props obj"
type_synonym package = "fields obj"
type_synonym schema = "package obj"

text \<open>The only exception the compiler phases can raise is a \<^verbatim>\<open>TypeError\<close>: a property
  read or written on \<^verbatim>\<open>undefined\<close>, \<^verbatim>\<open>Object.keys(undefined)\<close>, or a string method
  called on a value that is not a string.\<close>

datatype error = TypeError

text \<open>
  Parts of the host that the compiler calls and that are not part of the repository:
  lodash's \<^verbatim>\<open>_.camelCase\<close>, the conversion of a number to a string, the conversion of a
  string to a number, the module path read from \<^verbatim>\<open>go.mod\<close>, and the type registry
  \<^verbatim>\<open>config/types.json\<close>.
\<close>

record env =
  camelCase :: "string \<Rightarrow> string"
  numstr :: "rat \<Rightarrow> string"
  strnum :: "string \<Rightarrow> rat option"
  modulePath :: string
  types :: "jsval obj"

text \<open>Reading a property of a field or of a row: a missing property reads as
  \<^verbatim>\<open>undefined\<close>.\<close>

definition get_prop :: "props \<Rightarrow> string \<Rightarrow> jsval" where
  "get_prop ob k = (case obj_get ob k of None \<Rightarrow> JUndefined | Some v \<Rightarrow> v)"

fun truthy :: "jsval \<Rightarrow> bool" where
  "truthy JUndefined = False"
| "truthy (JStr s) = (s \<noteq> [])"
| "truthy (JNum r) = (r \<noteq> 0)"
| "truthy (JBool b) = b"
| "truthy (JObj kvs) = True"

text \<open>The conversion to a string, which is also the conversion of a value to a property
  key.\<close>

fun js_ToString :: "env \<Rightarrow> jsval \<Rightarrow> string" where
  "js_ToString e JUndefined = ''undefined''"
| "js_ToString e (JStr s) = s"
| "js_ToString e (JNum r) = numstr e r"
| "js_ToString e (JBool b) = (if b then ''true'' else ''false'')"
| "js_ToString e (JObj kvs) = ''[object Object]''"

text \<open>\<^verbatim>\<open>s.replace(/pat/, rep)\<close> for a pattern that is a literal text: the first occurrence.\<close>

fun replace_first :: "string \<Rightarrow> string \<Rightarrow> string \<Rightarrow> string" where
  "replace_first pat rep [] = (if pat = [] then rep else [])"
| "replace_first pat rep (c # cs) =
     (if prefix pat (c # cs) then rep @ drop (length pat) (c # cs)
      else c # replace_first pat rep cs)"

fun split_on :: "char \<Rightarrow> string \<Rightarrow> string list" where
  "split_on d [] = [[]]"
| "split_on d (c # cs) =
     (if c = d then [] # split_on d cs
      else (case split_on d cs of [] \<Rightarrow> [[c]] | p # ps \<Rightarrow> (c # p) # ps))"

text \<open>A loop whose body may throw: the first exception ends it.\<close>

fun fold_err :: "('a \<Rightarrow> 's \<Rightarrow> error + 's) \<Rightarrow> 'a list \<Rightarrow> 's \<Rightarrow> error + 's" where
  "fold_err f [] s = Inr s"
| "fold_err f (x # xs) s = (case f x s of Inl e \<Rightarrow> Inl e | Inr s' \<Rightarrow> fold_err f xs s')"

section \<open>SheetExtractor\<close>

text \<open>
  A workbook as \<^verbatim>\<open>XLSX.readFile\<close> returns it.  A sheet is represented by the rows that
  \<^verbatim>\<open>XLSX.utils.sheet_to_json\<close> makes of it: one object per data row, keyed by the column
  names, in column order.  A sheet name with no sheet gives no rows.
\<close>

record workbook =
  SheetNames :: "string list option"
  Sheets :: "(props list) obj"

definition sheet_to_json :: "workbook \<Rightarrow> string \<Rightarrow> props list" where
  "sheet_to_json wb sheetName =
     (case obj_get (Sheets wb) sheetName of None \<Rightarrow> [] | Some rows \<Rightarrow> rows)"

text \<open>\<^verbatim>\<open>Object.keys(data[0] || {})[0]\<close>: reading past the end of an array gives
  \<^verbatim>\<open>undefined\<close>, here \<open>None\<close>.\<close>

definition firstFieldName :: "props list \<Rightarrow> string option" where
  "firstFieldName data =
     (case obj_keys (case data of [] \<Rightarrow> [] | row # _ \<Rightarrow> row) of
        [] \<Rightarrow> None | k # _ \<Rightarrow> Some k)"

definition getSheetsHavingModels :: "workbook \<Rightarrow> string list" where
  "getSheetsHavingModels wb =
     filter (\<lambda>sheetName. firstFieldName (sheet_to_json wb sheetName) = Some ''Model'')
       (case SheetNames wb of None \<Rightarrow> [] | Some ns \<Rightarrow> ns)"

record extract_state =
  modelsData :: schema
  partials :: "fields obj"
  modelKey :: string

text \<open>The body of \<^verbatim>\<open>data.map((item) => ...)\<close> for one row of the sheet \<open>sheetName\<close>.\<close>

definition open_model :: "env \<Rightarrow> string \<Rightarrow> extract_state \<Rightarrow> props \<Rightarrow> extract_state" where
  "open_model e sheetName st item =
     (if truthy (get_prop item ''Model'') then
        (let mk = js_ToString e (get_prop item ''Model'') in
         if sheetName = ''partials''
         then st\<lparr>partials := obj_set mk [] (partials st), modelKey := mk\<rparr>
         else
           (let pkg = (case obj_get (modelsData st) sheetName of None \<Rightarrow> [] | Some p \<Rightarrow> p)
            in st\<lparr>modelsData := obj_set sheetName (obj_set mk [] pkg) (modelsData st),
                  modelKey := mk\<rparr>))
      else st)"

definition store_field :: "env \<Rightarrow> string \<Rightarrow> extract_state \<Rightarrow> props \<Rightarrow> error + extract_state" where
  "store_field e sheetName st item =
     (let Field = js_ToString e (get_prop item ''Field'');
          item' = obj_del ''Model'' item
      in if sheetName = ''partials'' then
           (case obj_get (partials st) (modelKey st) of
              None \<Rightarrow> Inl TypeError
            | Some m \<Rightarrow>
                Inr (st\<lparr>partials := obj_set (modelKey st) (obj_set Field item' m) (partials st)\<rparr>))
         else
           (case obj_get (modelsData st) sheetName of
              None \<Rightarrow> Inl TypeError
            | Some pkg \<Rightarrow>
                (case obj_get pkg (modelKey st) of
                   None \<Rightarrow> Inl TypeError
                 | Some m \<Rightarrow>
                     Inr (st\<lparr>modelsData :=
                       obj_set sheetName (obj_set (modelKey st) (obj_set Field item' m) pkg)
                         (modelsData st)\<rparr>))))"

definition extract_row :: "env \<Rightarrow> string \<Rightarrow> props \<Rightarrow> extract_state \<Rightarrow> error + extract_state" where
  "extract_row e sheetName item st = store_field e sheetName (open_model e sheetName st item) item"

definition extract_sheet :: "env \<Rightarrow> workbook \<Rightarrow> string \<Rightarrow> extract_state \<Rightarrow> error + extract_state" where
  "extract_sheet e wb sheetName st = fold_err (extract_row e sheetName) (sheet_to_json wb sheetName) st"

definition getModelsDataAndPartialsFromWorkbook ::
    "env \<Rightarrow> workbook \<Rightarrow> error + (schema \<times> fields obj)" where
  "getModelsDataAndPartialsFromWorkbook e wb =
     (case fold_err (extract_sheet e wb) (getSheetsHavingModels wb)
             \<lparr>modelsData = [], partials = [], modelKey = ''''\<rparr> of
        Inl err \<Rightarrow> Inl err
      | Inr st \<Rightarrow> Inr (modelsData st, partials st))"

text \<open>Where a row of the sheet \<open>sheetName\<close> is stored: in the partial bundle for the sheet
  named \<^verbatim>\<open>partials\<close>, in the package of the sheet's name otherwise.\<close>

definition stored_field :: "extract_state \<Rightarrow> string \<Rightarrow> string \<Rightarrow> props option" where
  "stored_field st sheetName fieldName =
     (if sheetName = ''partials'' then
        (case obj_get (partials st) (modelKey st) of
           None \<Rightarrow> None | Some m \<Rightarrow> obj_get m fieldName)
      else
        (case obj_get (modelsData st) sheetName of
           None \<Rightarrow> None
         | Some pkg \<Rightarrow>
             (case obj_get pkg (modelKey st) of None \<Rightarrow> None | Some m \<Rightarrow> obj_get m fieldName)))"

section \<open>PartialResolver\<close>

definition is_partial_key :: "string \<Rightarrow> bool" where
  "is_partial_key key = prefix ''partials.'' key"

text \<open>The body of \<^verbatim>\<open>for (let key in model)\<close>; \<^verbatim>\<open>Object.keys\<close> of a partial that does not
  exist throws.\<close>

definition fill_key :: "fields obj \<Rightarrow> string \<times> props \<Rightarrow> fields \<Rightarrow> error + fields" where
  "fill_key ps kv retModel =
     (if \<not> is_partial_key (fst kv) then Inr (obj_set (fst kv) (snd kv) retModel)
      else
        (case obj_get ps (replace_first ''partials.'' '''' (fst kv)) of
           None \<Rightarrow> Inl TypeError
         | Some partialsData \<Rightarrow>
             Inr (fold (\<lambda>pkv r. obj_set (fst pkv) (snd pkv) r) partialsData retModel)))"

definition fill_model :: "fields obj \<Rightarrow> fields \<Rightarrow> error + fields" where
  "fill_model ps model = fold_err (fill_key ps) model []"

text \<open>A loop that replaces the value of every key of an object by the result of a body
  that may throw (\<^verbatim>\<open>for (let k in o) { ...; o[k] = v }\<close>).\<close>

fun map_err :: "('a \<Rightarrow> error + 'b) \<Rightarrow> 'a obj \<Rightarrow> error + 'b obj" where
  "map_err f [] = Inr []"
| "map_err f (kv # kvs) =
     (case f (snd kv) of
        Inl e \<Rightarrow> Inl e
      | Inr v \<Rightarrow> (case map_err f kvs of Inl e \<Rightarrow> Inl e | Inr r \<Rightarrow> Inr ((fst kv, v) # r)))"

definition fillPartials :: "schema \<Rightarrow> fields obj \<Rightarrow> error + schema" where
  "fillPartials md ps = map_err (map_err (fill_model ps)) md"

section \<open>TypeResolver\<close>

text \<open>
  \<^verbatim>\<open>toLowerCase\<close> and \<^verbatim>\<open>toLocaleLowerCase\<close> on the letters A to Z; other characters are
  left as they are.
\<close>

definition lower_char :: "char \<Rightarrow> char" where
  "lower_char c =
     (case map_of (zip ''ABCDEFGHIJKLMNOPQRSTUVWXYZ'' ''abcdefghijklmnopqrstuvwxyz'') c of
        None \<Rightarrow> c | Some l \<Rightarrow> l)"

definition toLowerCase :: "string \<Rightarrow> string" where
  "toLowerCase s = map lower_char s"

text \<open>The conversion to a number; \<open>None\<close> is \<^verbatim>\<open>NaN\<close>, and every comparison with
  \<^verbatim>\<open>NaN\<close> is false.\<close>

fun js_ToNumber :: "env \<Rightarrow> jsval \<Rightarrow> rat option" where
  "js_ToNumber e JUndefined = None"
| "js_ToNumber e (JStr s) = strnum e s"
| "js_ToNumber e (JNum r) = Some r"
| "js_ToNumber e (JBool b) = Some (if b then 1 else 0)"
| "js_ToNumber e (JObj kvs) = None"

definition num_rel :: "(rat \<Rightarrow> rat \<Rightarrow> bool) \<Rightarrow> rat option \<Rightarrow> rat \<Rightarrow> bool" where
  "num_rel R x c = (case x of None \<Rightarrow> False | Some r \<Rightarrow> R r c)"

text \<open>
  A decimal literal of the source denotes a double.  A literal whose value is at least
  \<open>2^1024 - 2^970\<close> is beyond the largest finite double by half a unit in the last place
  or more and denotes \<^verbatim>\<open>Infinity\<close>.
\<close>

datatype double = Finite rat | Infinity

definition number_literal :: "rat \<Rightarrow> double" where
  "number_literal r = (if 2 ^ 1024 - 2 ^ 970 \<le> r then Infinity else Finite r)"

fun num_le :: "rat option \<Rightarrow> double \<Rightarrow> bool" where
  "num_le None d = False"
| "num_le (Some x) Infinity = True"
| "num_le (Some x) (Finite y) = (x \<le> y)"

text \<open>The two thresholds of \<^verbatim>\<open>setFloatType\<close>: the literal \<^verbatim>\<open>3.402823466e385\<close>, and the
  literal \<^verbatim>\<open>1.7976931348623157e308\<close>, which denotes the largest finite double.\<close>

definition float32_threshold :: double where
  "float32_threshold = number_literal (3402823466 * 10 ^ 376)"

definition float64_threshold :: double where
  "float64_threshold = Finite (2 ^ 1024 - 2 ^ 971)"

definition createFieldVariables :: "props \<Rightarrow> props \<times> jsval" where
  "createFieldVariables field =
     (let typeFromTypes = get_prop field ''typeFromTypes''; Type = get_prop field ''Type''
      in if truthy typeFromTypes then
           (case typeFromTypes of
              JObj t \<Rightarrow>
                (if truthy (get_prop t ''length'')
                 then obj_set ''length'' (get_prop t ''length'') field else field,
                 get_prop t ''type'')
            | _ \<Rightarrow> (field, typeFromTypes))
         else (field, Type))"

definition importStringsMaps :: "string obj" where
  \<open>importStringsMaps =
     [(''uuid.UUID'', ''uuid "github.com/google/uuid"''), (''time.Time'', ''"time"'')]\<close>

definition addToImports :: "jsval \<Rightarrow> string list \<Rightarrow> string \<Rightarrow> string list" where
  "addToImports type imports importStrType =
     (if importStrType = '''' then
        (case type of
           JStr t \<Rightarrow>
             (case obj_get importStringsMaps t of
                None \<Rightarrow> imports
              | Some s \<Rightarrow> if s \<in> set imports then imports else imports @ [s])
         | _ \<Rightarrow> imports)
      else if importStrType = ''local'' then
        (case type of
           JStr t \<Rightarrow> if t \<in> set imports then imports else imports @ [t]
         | _ \<Rightarrow> imports)
      else imports)"

text \<open>\<^verbatim>\<open>setPrimarykey\<close> assigns its parameter \<^verbatim>\<open>primary\<close>, which the caller never sees; its
  effect is on the import list.\<close>

definition setPrimarykey :: "jsval \<Rightarrow> string \<Rightarrow> props \<Rightarrow> string list \<Rightarrow> string list" where
  "setPrimarykey primary fieldKey field imports =
     (if truthy (get_prop field ''Primary'') then imports
      else addToImports (JStr ''uuid.UUID'') imports '''')"

definition setDefaultValue :: "env \<Rightarrow> props \<Rightarrow> props" where
  "setDefaultValue e field =
     (let DefaultValue = get_prop field ''DefaultValue''
      in if DefaultValue \<noteq> JUndefined then
           obj_set ''DefaultValue''
             (if get_prop field ''typeFromTypes'' = JStr ''string''
              then JStr ([CHR 0x27] @ js_ToString e DefaultValue @ [CHR 0x27])
              else DefaultValue) field
         else field)"

definition setFieldLength :: "props \<Rightarrow> props" where
  "setFieldLength field =
     (let len = get_prop field ''length''; MaximumLength = get_prop field ''MaximumLength'';
          field1 = (if MaximumLength \<noteq> JUndefined then obj_set ''Length'' MaximumLength field
                    else field)
      in if len \<noteq> JUndefined then obj_set ''Length'' len field1 else field1)"

definition setTimeType :: "props \<Rightarrow> props" where
  "setTimeType field =
     (if get_prop field ''typeFromTypes'' = JStr ''time.Time'' then
        (let field1 = (if \<not> truthy (get_prop field ''NotNull'')
                       then obj_set ''type'' (JStr ''*time.Time'') field else field)
         in if truthy (get_prop field ''AutoCreate'')
            then obj_set ''misc'' (JStr ''autoCreateTime'') field1 else field1)
      else field)"

text \<open>
  \<^verbatim>\<open>setIntType\<close>.  The literal \<^verbatim>\<open>18446744073709551615\<close> is not a double; it denotes the
  nearest one, \<open>2^64\<close>.
\<close>

definition setIntType :: "env \<Rightarrow> props \<Rightarrow> props" where
  "setIntType e field =
     (if get_prop field ''typeFromTypes'' = JStr ''int'' then
        (let Minimum0 = get_prop field ''Minimum'';
             Maximum0 = get_prop field ''Maximum'';
             Maximum = (if Minimum0 \<noteq> JUndefined \<and> Maximum0 = JUndefined
                        then JNum 18446744073709551616 else Maximum0);
             Minimum = (if Maximum \<noteq> JUndefined \<and> Minimum0 = JUndefined
                        then JNum (- 1) else Minimum0);
             mn = js_ToNumber e Minimum;
             mx = js_ToNumber e Maximum
         in if Maximum = JUndefined \<and> Minimum = JUndefined
            then obj_set ''type'' (JStr ''int64'') field
            else if num_rel (\<ge>) mn 0 \<and> num_rel (\<le>) mx 4294967295
            then obj_set ''type'' (JStr ''uint32'') field
            else if num_rel (\<ge>) mn 0 \<and> num_rel (>) mx 4294967295
            then obj_set ''type'' (JStr ''uint64'') field
            else if num_rel (<) mn 0 \<and> num_rel (\<le>) mx 2147483647
            then obj_set ''type'' (JStr ''int32'') field
            else if num_rel (<) mn 0 \<and> num_rel (>) mx 2147483647
            then obj_set ''type'' (JStr ''int64'') field
            else field)
      else field)"

definition setFloatType :: "env \<Rightarrow> props \<Rightarrow> props" where
  "setFloatType e field =
     (if get_prop field ''typeFromTypes'' = JStr ''float'' then
        (let Maximum = get_prop field ''Maximum'';
             absMaximum = map_option abs (js_ToNumber e Maximum)
         in if Maximum = JUndefined then obj_set ''type'' (JStr ''float64'') field
            else if num_le absMaximum float32_threshold
            then obj_set ''type'' (JStr ''float32'') field
            else if num_le absMaximum float64_threshold
            then obj_set ''type'' (JStr ''float64'') field
            else field)
      else field)"

definition setDefaultFieldType :: "props \<Rightarrow> props" where
  "setDefaultFieldType field =
     (case get_prop field ''typeFromTypes'' of
        JObj t \<Rightarrow>
          (let field1 = (if truthy (get_prop t ''type'')
                         then obj_set ''type'' (get_prop t ''type'') field else field)
           in if truthy (get_prop t ''length'')
              then obj_set ''Length'' (get_prop t ''length'') field1 else field1)
      | typeFromTypes \<Rightarrow> obj_set ''type'' typeFromTypes field)"

section \<open>RelationshipExpander\<close>

text \<open>\<^verbatim>\<open>fieldKey.match(/\./)\<close>\<close>

definition has_dot :: "string \<Rightarrow> bool" where
  "has_dot s = (CHR ''.'' \<in> set s)"

text \<open>\<^verbatim>\<open>fieldNameParts[i]\<close>; a key with a dot has the parts 0 and 1.\<close>

fun part :: "string list \<Rightarrow> nat \<Rightarrow> string" where
  "part [] i = ''undefined''"
| "part (p # ps) 0 = p"
| "part (p # ps) (Suc i) = part ps i"

definition getLocalModelPackageStr :: "env \<Rightarrow> string \<Rightarrow> string" where
  \<open>getLocalModelPackageStr e packageName =
     packageName @ '' "'' @ modulePath e @ ''/src/models/'' @ toLowerCase packageName @ ''"''\<close>


text \<open>
  \<^verbatim>\<open>createRelationShips\<close>.  The names of the two new fields have no dot, so they differ from
  the dotted key.  After \<^verbatim>\<open>fields[relatedFieldName] = field\<close> the object of the original field
  is reached under the dotted key and under the new name, so the assignment to its
  \<^verbatim>\<open>typeFromTypes\<close> is seen under both.  A key that is not a key of \<open>fields\<close> cannot come
  from the loop; the assignment to a property of \<^verbatim>\<open>undefined\<close> would throw.
\<close>

definition createRelationShips ::
    "env \<Rightarrow> fields \<Rightarrow> string \<Rightarrow> string \<Rightarrow> string list \<Rightarrow> error + (fields \<times> string list)" where
  "createRelationShips e fs fieldKey packageCamelCase imports =
     (if has_dot fieldKey then
        (let fieldNameParts = split_on CHR ''.'' fieldKey;
             relatedModelPackage = part fieldNameParts 0;
             relatedModel = part fieldNameParts 1;
             relatedFieldName = relatedModel @ ''Id'';
             relatedModelType =
               (if relatedModelPackage \<noteq> packageCamelCase then fieldKey else relatedModel);
             imports' =
               (if relatedModelPackage \<noteq> packageCamelCase
                then addToImports (JStr (getLocalModelPackageStr e relatedModelPackage)) imports ''local''
                else imports);
             fs1 = obj_set relatedModel
                     [(''typeFromTypes'', JStr relatedModelType),
                      (''misc'', JStr ''constraint:OnDelete:CASCADE;'')] fs
         in case obj_get fs fieldKey of
              None \<Rightarrow> Inl TypeError
            | Some field \<Rightarrow>
                (let field' = obj_set ''typeFromTypes'' (JStr ''uuid.UUID'') field
                 in Inr (obj_set relatedFieldName field' (obj_set fieldKey field' fs1), imports')))
      else Inr (fs, imports))"

text \<open>\<^verbatim>\<open>updateField\<close>; \<open>parentModel\<close> is the value of the holder \<^verbatim>\<open>{ value: false }\<close>,
  \<open>None\<close> for \<^verbatim>\<open>false\<close>.\<close>

definition updateField :: "fields \<Rightarrow> props \<Rightarrow> string \<Rightarrow> string option \<Rightarrow> fields \<times> string option" where
  "updateField fs field fieldKey parentModel =
     (if \<not> has_dot fieldKey then (obj_set fieldKey field fs, parentModel)
      else (obj_del fieldKey fs, Some fieldKey))"

type_synonym model_state = "fields \<times> string list \<times> string option"

text \<open>
  The body of the first loop \<^verbatim>\<open>for (let fieldKey in fields)\<close> of \<^verbatim>\<open>processModels\<close>.  The
  loop runs over the keys that the object has when the loop starts and passes over a key
  that has been deleted since.  The variable \<^verbatim>\<open>field\<close> is the object under
  \<^verbatim>\<open>fields[fieldKey]\<close>, with what \<^verbatim>\<open>createFieldVariables\<close> and \<^verbatim>\<open>createRelationShips\<close> have
  assigned to it.
\<close>

definition expand_field :: "env \<Rightarrow> string \<Rightarrow> string \<Rightarrow> model_state \<Rightarrow> error + model_state" where
  "expand_field e packageCamelCase fieldKey st =
     (case st of (fs, imports, parentModel) \<Rightarrow>
        (case obj_get fs fieldKey of
           None \<Rightarrow> Inr st
         | Some f0 \<Rightarrow>
             (case createRelationShips e (obj_set fieldKey (fst (createFieldVariables f0)) fs)
                     fieldKey packageCamelCase imports of
                Inl err \<Rightarrow> Inl err
              | Inr (fs1, imports1) \<Rightarrow>
                  (case obj_get fs1 fieldKey of
                     None \<Rightarrow> Inl TypeError
                   | Some field \<Rightarrow>
                       (case updateField fs1 field fieldKey parentModel of
                          (fs2, parentModel') \<Rightarrow> Inr (fs2, imports1, parentModel'))))))"

text \<open>The body of the second loop.\<close>

definition resolve_field :: "env \<Rightarrow> string \<Rightarrow> model_state \<Rightarrow> model_state" where
  "resolve_field e fieldKey st =
     (case st of (fs, imports, parentModel) \<Rightarrow>
        (case obj_get fs fieldKey of
           None \<Rightarrow> st
         | Some f0 \<Rightarrow>
             (let (field, type) = createFieldVariables f0;
                  imports1 = addToImports type imports '''';
                  field1 = setDefaultFieldType field;
                  imports2 = setPrimarykey (JBool False) fieldKey field1 imports1;
                  field2 = setFloatType e (setIntType e (setTimeType (setFieldLength
                             (setDefaultValue e field1))))
              in case updateField fs field2 fieldKey parentModel of
                   (fs', parentModel') \<Rightarrow> (fs', imports2, parentModel'))))"

text \<open>The two loops over the fields of one model.\<close>

definition process_fields :: "env \<Rightarrow> string \<Rightarrow> fields \<Rightarrow> error + model_state" where
  "process_fields e packageCamelCase fs =
     (case fold_err (expand_field e packageCamelCase) (obj_keys fs) (fs, [], None) of
        Inl err \<Rightarrow> Inl err
      | Inr st \<Rightarrow> Inr (fold (resolve_field e) (obj_keys (fst st)) st))"

text \<open>The entry of the parent to children table that follows the loops:
  \<^verbatim>\<open>if (parentModel.value) { ... }\<close>.\<close>

definition record_parent :: "string option \<Rightarrow> string \<Rightarrow> (string list) obj \<Rightarrow> (string list) obj" where
  "record_parent parentModel child h =
     (case parentModel of
        None \<Rightarrow> h
      | Some k \<Rightarrow>
          if k = [] then h
          else (case obj_get h k of
                  None \<Rightarrow> obj_set k [child] h
                | Some children \<Rightarrow> obj_set k (children @ [child]) h))"

section \<open>HierarchySorter\<close>

definition child_name :: "string \<Rightarrow> string" where
  "child_name model = replace_first ''Models.'' ''.'' model"

definition parents_of :: "(string list) obj \<Rightarrow> string \<Rightarrow> string list" where
  "parents_of h model = map fst (filter (\<lambda>kv. child_name model \<in> set (snd kv)) h)"

text \<open>The three phases of \<^verbatim>\<open>sortModelsByHierarchy\<close>: the models that are nobody's child,
  six passes that place a model with one parent after its parent, and the rest.\<close>

definition seed_models :: "string list \<Rightarrow> (string list) obj \<Rightarrow> string list" where
  "seed_models allModelStrs h = filter (\<lambda>model. parents_of h model = []) allModelStrs"

definition place_child :: "(string list) obj \<Rightarrow> string \<Rightarrow> string list \<Rightarrow> string list" where
  "place_child h model sortedModels =
     (case parents_of h model of
        [parent] \<Rightarrow>
          if replace_first ''.'' ''Models.'' parent \<in> set sortedModels
          then (if model \<notin> set sortedModels then sortedModels @ [model] else sortedModels)
          else sortedModels
      | _ \<Rightarrow> sortedModels)"

definition place_rest :: "string \<Rightarrow> string list \<Rightarrow> string list" where
  "place_rest model sortedModels =
     (if model \<notin> set sortedModels then sortedModels @ [model] else sortedModels)"

definition one_pass :: "string list \<Rightarrow> (string list) obj \<Rightarrow> string list \<Rightarrow> string list" where
  "one_pass allModelStrs h sortedModels = fold (place_child h) allModelStrs sortedModels"

definition sortModelsByHierarchy :: "string list \<Rightarrow> (string list) obj \<Rightarrow> string list" where
  "sortModelsByHierarchy allModelStrs h =
     fold place_rest allModelStrs
       (((one_pass allModelStrs h) ^^ 6) (seed_models allModelStrs h))"

section \<open>processModels\<close>

text \<open>\<^verbatim>\<open>createPackageVariables\<close> reads \<^verbatim>\<open>packageCamelCase[0].toUpperCase()\<close>, which throws
  for an empty name.\<close>

definition createPackageVariables :: "env \<Rightarrow> string \<Rightarrow> error + string" where
  "createPackageVariables e packageName =
     (if camelCase e packageName = [] then Inl TypeError else Inr (camelCase e packageName))"

record models_state =
  rendered :: "(string \<times> string \<times> fields \<times> string list) list"
  allModelStrs :: "string list"
  allModelsWithHierarchyData :: "(string list) obj"

definition process_model :: "env \<Rightarrow> string \<Rightarrow> string \<times> fields \<Rightarrow> models_state \<Rightarrow> error + models_state" where
  "process_model e packageCamelCase mf st =
     (case process_fields e packageCamelCase (snd mf) of
        Inl err \<Rightarrow> Inl err
      | Inr (fs, imports, parentModel) \<Rightarrow>
          Inr \<lparr>rendered = rendered st @ [(packageCamelCase, fst mf, fs, imports)],
               allModelStrs = allModelStrs st @ [packageCamelCase @ ''Models.'' @ fst mf],
               allModelsWithHierarchyData =
                 record_parent parentModel (packageCamelCase @ ''.'' @ fst mf)
                   (allModelsWithHierarchyData st)\<rparr>)"

definition process_package :: "env \<Rightarrow> string \<times> package \<Rightarrow> models_state \<Rightarrow> error + models_state" where
  "process_package e pp st =
     (case createPackageVariables e (fst pp) of
        Inl err \<Rightarrow> Inl err
      | Inr packageCamelCase \<Rightarrow> fold_err (process_model e packageCamelCase) (snd pp) st)"

text \<open>\<^verbatim>\<open>processModels\<close> on the schema read from \<^verbatim>\<open>models.json\<close>: what is given to the
  templates for every model, the list of models, the parent to children table, and the
  sorted list of models.\<close>

definition processModels :: "env \<Rightarrow> schema \<Rightarrow> error + (models_state \<times> string list)" where
  "processModels e md =
     (case fold_err (process_package e) md
             \<lparr>rendered = [], allModelStrs = [], allModelsWithHierarchyData = []\<rparr> of
        Inl err \<Rightarrow> Inl err
      | Inr st \<Rightarrow>
          Inr (st, sortModelsByHierarchy (rev (allModelStrs st)) (allModelsWithHierarchyData st)))"

section \<open>Type registry lookup and APISectionSegregator\<close>

text \<open>\<^verbatim>\<open>replaceWebAppTypesWithModelType\<close> for one field: \<^verbatim>\<open>Type.toLowerCase()\<close> throws when
  \<^verbatim>\<open>Type\<close> is truthy and not a string.\<close>

definition replace_type :: "env \<Rightarrow> props \<Rightarrow> error + props" where
  "replace_type e field =
     (case get_prop field ''Type'' of
        JStr s \<Rightarrow>
          if s = [] then Inr field
          else (let typeFromTypes = get_prop (types e) (toLowerCase s)
                in if truthy typeFromTypes
                   then Inr (obj_set ''typeFromTypes'' typeFromTypes field) else Inr field)
      | v \<Rightarrow> if truthy v then Inl TypeError else Inr field)"

definition replaceWebAppTypesWithModelType :: "env \<Rightarrow> schema \<Rightarrow> error + schema" where
  "replaceWebAppTypesWithModelType e md = map_err (map_err (map_err (replace_type e))) md"

definition actions :: "string list" where
  "actions = [''create'', ''read'', ''update'', ''delete'']"

text \<open>
  The body of \<^verbatim>\<open>keys.map((key) => ...)\<close> of \<^verbatim>\<open>segregateAPISections\<close>, on the field and the
  \<^verbatim>\<open>apiData\<close> collected so far.  The value is lower-cased only when the key is one of the
  four actions; \<^verbatim>\<open>toLocaleLowerCase\<close> of a value that is not a string throws.
\<close>

definition segregate_key :: "string \<Rightarrow> props \<times> props \<Rightarrow> error + (props \<times> props)" where
  "segregate_key key st =
     (case st of (field, apiData) \<Rightarrow>
        if toLowerCase key \<in> set actions then
          (case get_prop field key of
             JStr bby \<Rightarrow>
               if toLowerCase bby \<in> set [''required'', ''optional'']
               then Inr (obj_del key field,
                         obj_set (toLowerCase key) (JStr (toLowerCase bby)) apiData)
               else Inr st
           | _ \<Rightarrow> Inl TypeError)
        else Inr st)"

definition segregate_field :: "props \<Rightarrow> error + props" where
  "segregate_field field =
     (case fold_err segregate_key (obj_keys field) (field, []) of
        Inl err \<Rightarrow> Inl err
      | Inr (field', apiData) \<Rightarrow>
          Inr (if length (obj_keys apiData) > 0 then obj_set ''api'' (JObj apiData) field'
               else field'))"

definition segregateAPISections :: "schema \<Rightarrow> error + schema" where
  "segregateAPISections md = map_err (map_err (map_err segregate_field)) md"

section \<open>RouteProjector\<close>

fun string_of_nat :: "nat \<Rightarrow> string" where
  "string_of_nat n =
     (if n < 10 then [''0123456789'' ! n]
      else string_of_nat (n div 10) @ [''0123456789'' ! (n mod 10)])"

declare string_of_nat.simps [simp del]

text \<open>\<^verbatim>\<open>Object.keys\<close> of a value: it throws for \<^verbatim>\<open>undefined\<close>, gives the indices for a string
  and nothing for a number or a boolean.\<close>

fun js_Object_keys :: "jsval \<Rightarrow> error + string list" where
  "js_Object_keys JUndefined = Inl TypeError"
| "js_Object_keys (JStr s) = Inr (map string_of_nat [0..<length s])"
| "js_Object_keys (JNum r) = Inr []"
| "js_Object_keys (JBool b) = Inr []"
| "js_Object_keys (JObj kvs) = Inr (obj_keys kvs)"

text \<open>The first loop over the fields of a model in \<^verbatim>\<open>processRoutesDataFromModelsData\<close>:
  every property other than \<^verbatim>\<open>api\<close> is deleted from the field, and a field left without
  properties is deleted from the model.  The field objects are those of the argument.\<close>

definition strip_field :: "props \<Rightarrow> props" where
  "strip_field field = fold (\<lambda>key f. if key \<noteq> ''api'' then obj_del key f else f) (obj_keys field) field"

definition strip_step :: "string \<Rightarrow> fields \<Rightarrow> fields" where
  "strip_step field modelData =
     (case obj_get modelData field of
        None \<Rightarrow> modelData
      | Some p \<Rightarrow>
          if length (obj_keys (strip_field p)) = 0 then obj_del field modelData
          else obj_set field (strip_field p) modelData)"

definition strip_model :: "fields \<Rightarrow> fields" where
  "strip_model modelData = fold strip_step (obj_keys modelData) modelData"

text \<open>\<^verbatim>\<open>Object.keys(modelData).filter((field) => Object.keys(modelData[field]['api']).includes(action))\<close>\<close>

fun fields_with_action :: "string \<Rightarrow> fields \<Rightarrow> error + string list" where
  "fields_with_action action [] = Inr []"
| "fields_with_action action (fp # rest) =
     (case js_Object_keys (get_prop (snd fp) ''api'') of
        Inl err \<Rightarrow> Inl err
      | Inr ks \<Rightarrow>
          (case fields_with_action action rest of
             Inl err \<Rightarrow> Inl err
           | Inr fs \<Rightarrow> Inr (if action \<in> set ks then fst fp # fs else fs)))"

definition set_action :: "fields \<Rightarrow> string \<Rightarrow> (string list) obj \<Rightarrow> error + (string list) obj" where
  "set_action modelData action entry =
     (case fields_with_action action modelData of
        Inl err \<Rightarrow> Inl err
      | Inr fs \<Rightarrow>
          Inr (if length fs = 0 then obj_del action (obj_set action fs entry)
               else obj_set action fs entry))"

text \<open>One model: the model as the loop leaves it, and its entry in \<^verbatim>\<open>reorganized\<close>.\<close>

definition route_model :: "fields \<Rightarrow> error + (fields \<times> (string list) obj)" where
  "route_model modelData =
     (let modelData' = strip_model modelData
      in case fold_err (set_action modelData') actions
                [(''create'', []), (''read'', []), (''update'', []), (''delete'', [])] of
           Inl err \<Rightarrow> Inl err
         | Inr entry \<Rightarrow> Inr (modelData', entry))"

type_synonym route_package = "((string list) obj) obj"

text \<open>One package: the package object as the loop leaves it, and \<^verbatim>\<open>reorganized[packageName]\<close>.\<close>

fun route_package :: "package \<Rightarrow> error + (package \<times> route_package)" where
  "route_package [] = Inr ([], [])"
| "route_package (mm # rest) =
     (case route_model (snd mm) of
        Inl err \<Rightarrow> Inl err
      | Inr (modelData', entry) \<Rightarrow>
          (case route_package rest of
             Inl err \<Rightarrow> Inl err
           | Inr (rest', entries) \<Rightarrow> Inr ((fst mm, modelData') # rest', (fst mm, entry) # entries)))"

section \<open>The objects in memory: xlsxToJSON\<close>

text \<open>
  \<^verbatim>\<open>xlsxToJSON\<close> makes \<^verbatim>\<open>routesData\<close> with \<^verbatim>\<open>Object.assign({}, modelsData)\<close>, which copies the
  references to the package objects, and \<^verbatim>\<open>processRoutesDataFromModelsData\<close> assigns to and
  deletes from the objects it reaches.  What \<^verbatim>\<open>JSON.stringify(modelsData)\<close> then writes
  depends on which objects are shared, so from this point the objects are in a store: a
  top-level object maps package names to the addresses of package objects.  A package
  object is reached from the top-level objects only, and is kept in the store with its
  models and fields as a value.
\<close>

type_synonym addr = nat

datatype cell =
    TopObj "addr obj"
  | PackageObj package
  | RoutesObj route_package

text \<open>The store: the object at the address \<open>a\<close> is the element \<open>a\<close> of the list; a new object
  gets the next address.\<close>

type_synonym heap = "cell list"

definition heap_get :: "heap \<Rightarrow> addr \<Rightarrow> cell option" where
  "heap_get h a = (if a < length h then Some (h ! a) else None)"

definition heap_set :: "addr \<Rightarrow> cell \<Rightarrow> heap \<Rightarrow> heap" where
  "heap_set a c h = h[a := c]"

definition alloc :: "cell \<Rightarrow> heap \<Rightarrow> addr \<times> heap" where
  "alloc c h = (length h, h @ [c])"

text \<open>The schema as it is in memory after the phases before the route projection: one
  object per package and the top-level object \<^verbatim>\<open>modelsData\<close>.\<close>

fun load_packages :: "schema \<Rightarrow> heap \<Rightarrow> addr obj \<times> heap" where
  "load_packages [] h = ([], h)"
| "load_packages (pp # rest) h =
     (case alloc (PackageObj (snd pp)) h of
        (a, h1) \<Rightarrow> (case load_packages rest h1 of (tobj, h2) \<Rightarrow> ((fst pp, a) # tobj, h2)))"

definition load_schema :: "schema \<Rightarrow> heap \<Rightarrow> addr \<times> heap" where
  "load_schema md h = (case load_packages md h of (tobj, h1) \<Rightarrow> alloc (TopObj tobj) h1)"

text \<open>\<^verbatim>\<open>Object.assign(target, source)\<close> on the properties of two top-level objects, and
  \<^verbatim>\<open>Object.assign({}, source)\<close>: a new top-level object with the properties of the source,
  which are references.\<close>

definition assign_props :: "addr obj \<Rightarrow> addr obj \<Rightarrow> addr obj" where
  "assign_props target source = fold (\<lambda>kv t. obj_set (fst kv) (snd kv) t) source target"

definition Object_assign_new :: "heap \<Rightarrow> addr \<Rightarrow> error + (addr \<times> heap)" where
  "Object_assign_new h source =
     (case heap_get h source of
        Some (TopObj tobj) \<Rightarrow> Inr (alloc (TopObj (assign_props [] tobj)) h)
      | _ \<Rightarrow> Inl TypeError)"

text \<open>The body of \<^verbatim>\<open>for (let packageName in routesData)\<close>: the package object is changed
  where it is, and a new object is made for \<^verbatim>\<open>reorganized[packageName]\<close>.\<close>

definition route_package_at ::
    "string \<times> addr \<Rightarrow> heap \<times> addr obj \<Rightarrow> error + (heap \<times> addr obj)" where
  "route_package_at pa st =
     (case st of (h, reorganized) \<Rightarrow>
        (case heap_get h (snd pa) of
           Some (PackageObj packageData) \<Rightarrow>
             (case route_package packageData of
                Inl err \<Rightarrow> Inl err
              | Inr (packageData', entries) \<Rightarrow>
                  (case alloc (RoutesObj entries) (heap_set (snd pa) (PackageObj packageData') h) of
                     (b, h') \<Rightarrow> Inr (h', obj_set (fst pa) b reorganized)))
         | _ \<Rightarrow> Inl TypeError))"

definition processRoutesDataFromModelsData :: "heap \<Rightarrow> addr \<Rightarrow> error + heap" where
  "processRoutesDataFromModelsData h routesData =
     (case heap_get h routesData of
        Some (TopObj tobj) \<Rightarrow>
          (case fold_err route_package_at tobj (h, []) of
             Inl err \<Rightarrow> Inl err
           | Inr (h', reorganized) \<Rightarrow>
               Inr (heap_set routesData (TopObj (assign_props tobj reorganized)) h'))
      | _ \<Rightarrow> Inl TypeError)"

text \<open>What \<^verbatim>\<open>JSON.stringify\<close> writes for a top-level object: for every key the object that
  the reference leads to.  The rows of a sheet hold no \<^verbatim>\<open>undefined\<close>, so every property is
  written.\<close>

definition JSON_stringify :: "heap \<Rightarrow> addr \<Rightarrow> (cell option) obj" where
  "JSON_stringify h a =
     (case heap_get h a of
        Some (TopObj tobj) \<Rightarrow> map (\<lambda>kv. (fst kv, heap_get h (snd kv))) tobj
      | _ \<Rightarrow> [])"

text \<open>The end of \<^verbatim>\<open>xlsxToJSON\<close>, from \<^verbatim>\<open>Object.assign\<close> on: the contents of
  \<^verbatim>\<open>models.json\<close> and of \<^verbatim>\<open>routesFromModels.json\<close> for the schema that the segregation
  has left.\<close>

definition write_documents :: "schema \<Rightarrow> error + ((cell option) obj \<times> (cell option) obj)" where
  "write_documents md =
     (case load_schema md [] of
        (modelsAddr, h0) \<Rightarrow>
     (case Object_assign_new h0 modelsAddr of
        Inl err \<Rightarrow> Inl err
      | Inr (routesAddr, h1) \<Rightarrow>
     (case processRoutesDataFromModelsData h1 routesAddr of
        Inl err \<Rightarrow> Inl err
      | Inr h2 \<Rightarrow> Inr (JSON_stringify h2 modelsAddr, JSON_stringify h2 routesAddr))))"

text \<open>\<^verbatim>\<open>xlsxToJSON\<close>: the phases in their order, and the two documents.\<close>

definition xlsxToJSON :: "env \<Rightarrow> workbook \<Rightarrow> error + ((cell option) obj \<times> (cell option) obj)" where
  "xlsxToJSON e wb =
     (case getModelsDataAndPartialsFromWorkbook e wb of
        Inl err \<Rightarrow> Inl err
      | Inr (md, ps) \<Rightarrow>
     (case fillPartials md ps of
        Inl err \<Rightarrow> Inl err
      | Inr md1 \<Rightarrow>
     (case replaceWebAppTypesWithModelType e md1 of
        Inl err \<Rightarrow> Inl err
      | Inr md2 \<Rightarrow>
     (case segregateAPISections md2 of
        Inl err \<Rightarrow> Inl err
      | Inr md3 \<Rightarrow> write_documents md3))))"

section \<open>Notions for the properties of the route projection\<close>

text \<open>What the first loop over the fields of a model leaves of the model: every field
  reduced to its \<^verbatim>\<open>api\<close> property, without the fields that have none.\<close>

definition stripped :: "fields \<Rightarrow> fields" where
  "stripped m = filter (\<lambda>fp. snd fp \<noteq> []) (map (\<lambda>fp. (fst fp, strip_field (snd fp))) m)"

text \<open>The keys of the api object of a field; a field without an api object has none.\<close>

definition api_keys :: "props \<Rightarrow> string set" where
  "api_keys p = (case obj_get p ''api'' of Some (JObj kvs) \<Rightarrow> set (obj_keys kvs) | _ \<Rightarrow> {})"


text \<open>An api object made by the segregator has action keys only.\<close>

definition api_ok :: "props \<Rightarrow> bool" where
  "api_ok p = (case obj_get p ''api'' of
                 Some (JObj kvs) \<Rightarrow> set (obj_keys kvs) \<subseteq> set actions
               | Some JUndefined \<Rightarrow> False
               | _ \<Rightarrow> True)"

text \<open>The names listed for an action.\<close>

definition listed :: "fields \<Rightarrow> string \<Rightarrow> string list" where
  "listed m a = map fst (filter (\<lambda>fp. a \<in> api_keys (snd fp)) (stripped m))"

section \<open>Example inputs\<close>

text \<open>A host for the examples below; none of them converts a number to a string or a
  string to a number.\<close>

definition host0 :: env where
  "host0 = \<lparr>camelCase = (\<lambda>s. s), numstr = (\<lambda>r. []), strnum = (\<lambda>s. None),
             modulePath = ''example.com/app'', types = []\<rparr>"


text \<open>The type registry of the examples, and the workbook of the end-to-end example of the
  specification.\<close>

definition host1 :: env where
  "host1 = host0\<lparr>types :=
     [(''uuid'', JStr ''uuid.UUID''), (''string'', JObj [(''type'', JStr ''string''), (''length'', JNum 255)]),
      (''time'', JStr ''time.Time''), (''int'', JStr ''int''), (''float'', JStr ''float'')]\<rparr>"

definition wb_end_to_end :: workbook where
  "wb_end_to_end =
     \<lparr>SheetNames = Some [''users''],
      Sheets =
        [(''users'',
          [[(''Model'', JStr ''User''), (''Field'', JStr ''id''), (''Type'', JStr ''uuid''), (''Primary'', JBool True)],
           [(''Field'', JStr ''name''), (''Type'', JStr ''string''), (''Create'', JStr ''required''),
            (''Read'', JStr ''required'')],
           [(''Field'', JStr ''createdAt''), (''Type'', JStr ''time''), (''AutoCreate'', JBool True)]])]\<rparr>"



section \<open>SheetExtractor: properties\<close>





text \<open>
  C2 (as the code has it).  A row that is stored is stored under its \<^verbatim>\<open>Field\<close> name, in the
  model that is open after the row, as the row without its \<^verbatim>\<open>Model\<close> column: only
  \<^verbatim>\<open>delete item.Model\<close> is applied, the \<^verbatim>\<open>Field\<close> column of the row stays in the stored
  property map.
\<close>

theorem extract_row_stores_row_without_Model:
  assumes "extract_row e sheetName item st = Inr st'"
  shows "stored_field st' sheetName (js_ToString e (get_prop item ''Field'')) = Some (obj_del ''Model'' item) \<and>
         obj_keys (obj_del ''Model'' item) = removeAll ''Model'' (obj_keys item) \<and>
         (''Field'' \<in> set (obj_keys item) \<longrightarrow> ''Field'' \<in> set (obj_keys (obj_del ''Model'' item)))"
proof -
  have keys: "obj_keys (obj_del ''Model'' item) = removeAll ''Model'' (obj_keys item)"
    by (rule delete_keys)
  have stored: "stored_field st' sheetName (js_ToString e (get_prop item ''Field'')) = Some (obj_del ''Model'' item)"
    using assms
    by (auto simp: extract_row_def store_field_def stored_field_def Let_def update_conv'
             split: if_splits option.splits)
  from keys stored show ?thesis by simp
qed

theorem extract_row_stores_row_without_Model_witness:
  "extract_row host0 ''users'' [(''Model'', JStr ''User''), (''Field'', JStr ''id''), (''Type'', JStr ''uuid'')]
      \<lparr>modelsData = [], partials = [], modelKey = ''''\<rparr>
     = Inr \<lparr>modelsData = [(''users'', [(''User'', [(''id'', [(''Field'', JStr ''id''), (''Type'', JStr ''uuid'')])])])],
            partials = [], modelKey = ''User''\<rparr> \<and>
   stored_field \<lparr>modelsData = [(''users'', [(''User'', [(''id'', [(''Field'', JStr ''id''), (''Type'', JStr ''uuid'')])])])],
            partials = [], modelKey = ''User''\<rparr> ''users'' ''id''
     = Some [(''Field'', JStr ''id''), (''Type'', JStr ''uuid'')]"
proof -
  have run: "extract_row host0 ''users'' [(''Model'', JStr ''User''), (''Field'', JStr ''id''), (''Type'', JStr ''uuid'')]
      \<lparr>modelsData = [], partials = [], modelKey = ''''\<rparr>
     = Inr \<lparr>modelsData = [(''users'', [(''User'', [(''id'', [(''Field'', JStr ''id''), (''Type'', JStr ''uuid'')])])])],
            partials = [], modelKey = ''User''\<rparr>"
    by (simp add: extract_row_def open_model_def store_field_def get_prop_def Let_def)
  from extract_row_stores_row_without_Model [OF run] run show ?thesis
    by (simp add: get_prop_def)
qed

text \<open>The claim C2 as it is written fails on a sheet of one row: the property map stored
  for the field \<^verbatim>\<open>id\<close> has the key \<^verbatim>\<open>Field\<close>.\<close>

theorem extract_keeps_Field_column:
  "getModelsDataAndPartialsFromWorkbook host0
      \<lparr>SheetNames = Some [''users''],
       Sheets = [(''users'', [[(''Model'', JStr ''User''), (''Field'', JStr ''id''), (''Type'', JStr ''uuid'')]])]\<rparr>
     = Inr ([(''users'', [(''User'', [(''id'', [(''Field'', JStr ''id''), (''Type'', JStr ''uuid'')])])])], []) \<and>
   set (obj_keys [(''Field'', JStr ''id''), (''Type'', JStr ''uuid'')])
     \<noteq> set (obj_keys [(''Model'', JStr ''User''), (''Field'', JStr ''id''), (''Type'', JStr ''uuid'')])
         - {''Model'', ''Field''}"
  by (simp add: getModelsDataAndPartialsFromWorkbook_def getSheetsHavingModels_def
        firstFieldName_def sheet_to_json_def extract_sheet_def extract_row_def
        open_model_def store_field_def get_prop_def Let_def)

section \<open>PartialResolver: properties\<close>





lemma fold_err_Inr:
  "(\<forall>x \<in> set xs. \<forall>s. \<exists>s'. f x s = Inr s') \<Longrightarrow> \<exists>s'. fold_err f xs s = Inr s'"
proof (induction xs arbitrary: s)
  case Nil
  then show ?case by simp
next
  case (Cons x xs)
  from Cons.prems have "\<exists>s1. f x s = Inr s1" by simp
  then obtain s1 where s1: "f x s = Inr s1" ..
  from Cons.prems have "\<forall>x \<in> set xs. \<forall>s. \<exists>s'. f x s = Inr s'" by simp
  from Cons.IH [OF this, of s1] s1 show ?case by simp
qed

lemma map_err_Inr:
  "(\<forall>kv \<in> set xs. \<exists>y. f (snd kv) = Inr y) \<Longrightarrow> \<exists>ys. map_err f xs = Inr ys"
proof (induction xs)
  case Nil
  then show ?case by simp
next
  case (Cons kv xs)
  from Cons.prems have "\<exists>y. f (snd kv) = Inr y" by simp
  then obtain y where y: "f (snd kv) = Inr y" ..
  from Cons.prems have "\<forall>kv \<in> set xs. \<exists>y. f (snd kv) = Inr y" by simp
  from Cons.IH [OF this] obtain ys where "map_err f xs = Inr ys" ..
  with y show ?case by simp
qed

text \<open>When every reference names a partial of the bundle, the resolver completes.\<close>

lemma fillPartials_resolved_completes:
  assumes "\<forall>pp \<in> set md. \<forall>mm \<in> set (snd pp). \<forall>kv \<in> set (snd mm).
      is_partial_key (fst kv) \<longrightarrow> obj_get ps (replace_first ''partials.'' '''' (fst kv)) \<noteq> None"
  shows "\<exists>r. fillPartials md ps = Inr r"
proof -
  have model: "\<exists>r. fill_model ps (snd mm) = Inr r" if "pp \<in> set md" "mm \<in> set (snd pp)" for pp mm
  proof -
    have "\<forall>kv \<in> set (snd mm). \<forall>s. \<exists>s'. fill_key ps kv s = Inr s'"
      using assms that by (auto simp: fill_key_def split: option.splits)
    then show ?thesis
      unfolding fill_model_def by (rule fold_err_Inr)
  qed
  have "\<exists>r. map_err (fill_model ps) (snd pp) = Inr r" if "pp \<in> set md" for pp
    using model [OF that] by (intro map_err_Inr) blast
  then show ?thesis
    unfolding fillPartials_def by (intro map_err_Inr) blast
qed

section \<open>TypeResolver: properties\<close>

text \<open>
  C4 (as the code has it).  For an integer-typed field with exactly one bound given,
  \<^verbatim>\<open>setIntType\<close> takes \<open>-1\<close> for a missing \<^verbatim>\<open>Minimum\<close> and \<^verbatim>\<open>18446744073709551615\<close> for
  a missing \<^verbatim>\<open>Maximum\<close> before it applies the width table.  So a field with only a
  \<^verbatim>\<open>Maximum\<close> resolves to a signed width, 32-bit when the maximum is at most \<open>2^31 - 1\<close>
  and 64-bit above, and a field with only a \<^verbatim>\<open>Minimum\<close> resolves to a 64-bit width,
  unsigned when the minimum is not negative and signed when it is.
\<close>

theorem setIntType_one_bound:
  assumes "get_prop field ''typeFromTypes'' = JStr ''int''"
  shows "(get_prop field ''Minimum'' = JUndefined \<and> get_prop field ''Maximum'' = JNum M \<longrightarrow>
            setIntType e field =
              obj_set ''type'' (JStr (if M \<le> 2147483647 then ''int32'' else ''int64'')) field) \<and>
         (get_prop field ''Minimum'' = JNum m \<and> get_prop field ''Maximum'' = JUndefined \<longrightarrow>
            setIntType e field =
              obj_set ''type'' (JStr (if 0 \<le> m then ''uint64'' else ''int64'')) field)"
  using assms by (auto simp: setIntType_def Let_def num_rel_def)

theorem setIntType_one_bound_witness:
  "get_prop [(''typeFromTypes'', JStr ''int''), (''Maximum'', JNum 4294967295)] ''typeFromTypes'' = JStr ''int'' \<and>
   get_prop [(''typeFromTypes'', JStr ''int''), (''Maximum'', JNum 4294967295)] ''Minimum'' = JUndefined \<and>
   get_prop [(''typeFromTypes'', JStr ''int''), (''Maximum'', JNum 4294967295)] ''Maximum'' = JNum 4294967295 \<and>
   setIntType host0 [(''typeFromTypes'', JStr ''int''), (''Maximum'', JNum 4294967295)]
     = [(''typeFromTypes'', JStr ''int''), (''Maximum'', JNum 4294967295), (''type'', JStr ''int64'')] \<and>
   get_prop [(''typeFromTypes'', JStr ''int''), (''Minimum'', JNum 0)] ''typeFromTypes'' = JStr ''int'' \<and>
   get_prop [(''typeFromTypes'', JStr ''int''), (''Minimum'', JNum 0)] ''Minimum'' = JNum 0 \<and>
   get_prop [(''typeFromTypes'', JStr ''int''), (''Minimum'', JNum 0)] ''Maximum'' = JUndefined \<and>
   setIntType host0 [(''typeFromTypes'', JStr ''int''), (''Minimum'', JNum 0)]
     = [(''typeFromTypes'', JStr ''int''), (''Minimum'', JNum 0), (''type'', JStr ''uint64'')]"
  using setIntType_one_bound
      [of "[(''typeFromTypes'', JStr ''int''), (''Maximum'', JNum 4294967295)]" 4294967295 host0 0]
    setIntType_one_bound
      [of "[(''typeFromTypes'', JStr ''int''), (''Minimum'', JNum 0)]" 0 host0 0]
  by (simp add: get_prop_def)

text \<open>The claim C4 as it is written fails for a field with no \<^verbatim>\<open>Minimum\<close> and the
  \<^verbatim>\<open>Maximum\<close> 100: the resolved width is the signed 32-bit one, not the unsigned.\<close>

theorem setIntType_only_Maximum_is_signed:
  "get_prop (setIntType host0 [(''typeFromTypes'', JStr ''int''), (''Maximum'', JNum 100)]) ''type''
     = JStr ''int32'' \<and>
   get_prop (setIntType host0 [(''typeFromTypes'', JStr ''int''), (''Maximum'', JNum 100)]) ''type''
     \<noteq> JStr ''uint32''"
  by (simp add: setIntType_def get_prop_def Let_def num_rel_def)

text \<open>
  C7 (what the code does).  The first threshold of \<^verbatim>\<open>setFloatType\<close> is the literal
  \<^verbatim>\<open>3.402823466e385\<close>, which is beyond every finite double and so denotes
  \<^verbatim>\<open>Infinity\<close>.  Every float-typed field with a numeric \<^verbatim>\<open>Maximum\<close> therefore resolves to
  the 32-bit float, whatever the magnitude of the maximum; the branch for the 64-bit float
  is never taken for a number.
\<close>

theorem setFloatType_numeric_Maximum_is_float32:
  assumes "get_prop field ''typeFromTypes'' = JStr ''float''"
    and "get_prop field ''Maximum'' = JNum r"
  shows "setFloatType e field = obj_set ''type'' (JStr ''float32'') field"
  using assms
  by (simp add: setFloatType_def Let_def float32_threshold_def number_literal_def)

theorem setFloatType_numeric_Maximum_is_float32_witness:
  "get_prop [(''typeFromTypes'', JStr ''float''), (''Maximum'', JNum (2 ^ 128))] ''typeFromTypes''
     = JStr ''float'' \<and>
   get_prop [(''typeFromTypes'', JStr ''float''), (''Maximum'', JNum (2 ^ 128))] ''Maximum''
     = JNum (2 ^ 128) \<and>
   (3.4028235 * 10 ^ 38 :: rat) < \<bar>2 ^ 128\<bar> \<and>
   setFloatType host0 [(''typeFromTypes'', JStr ''float''), (''Maximum'', JNum (2 ^ 128))]
     = [(''typeFromTypes'', JStr ''float''), (''Maximum'', JNum (2 ^ 128)), (''type'', JStr ''float32'')]"
  using setFloatType_numeric_Maximum_is_float32
      [of "[(''typeFromTypes'', JStr ''float''), (''Maximum'', JNum (2 ^ 128))]" "2 ^ 128" host0]
  by (simp add: get_prop_def)

section \<open>RelationshipExpander: properties\<close>

lemma split_on_no_sep: "p \<in> set (split_on d s) \<Longrightarrow> d \<notin> set p"
  by (induction s arbitrary: p) (auto split: if_splits list.splits)

lemma split_on_nonempty: "split_on d s \<noteq> []"
  by (induction s) (auto split: list.splits)

lemma split_on_two: "d \<in> set s \<Longrightarrow> \<exists>p0 p1 rest. split_on d s = p0 # p1 # rest"
proof (induction s)
  case Nil
  then show ?case by simp
next
  case (Cons c cs)
  show ?case
  proof (cases "c = d")
    case True
    then show ?thesis using split_on_nonempty [of d cs]
      by (cases "split_on d cs") auto
  next
    case False
    with Cons.prems have "d \<in> set cs" by simp
    from Cons.IH [OF this] False show ?thesis by auto
  qed
qed

lemma part_in_set: "i < length ps \<Longrightarrow> part ps i \<in> set ps"
  by (induction ps i rule: part.induct) auto

lemma related_names_no_dot:
  assumes "has_dot k"
  shows "\<not> has_dot (part (split_on CHR ''.'' k) 1)"
    and "\<not> has_dot (part (split_on CHR ''.'' k) 1 @ ''Id'')"
proof -
  from assms obtain p0 p1 rest where sp: "split_on CHR ''.'' k = p0 # p1 # rest"
    using split_on_two [of "CHR ''.''" k] by (auto simp: has_dot_def)
  then have "part (split_on CHR ''.'' k) 1 \<in> set (split_on CHR ''.'' k)"
    by (intro part_in_set) simp
  then have "CHR ''.'' \<notin> set (part (split_on CHR ''.'' k) 1)"
    by (rule split_on_no_sep)
  then show "\<not> has_dot (part (split_on CHR ''.'' k) 1)"
    and "\<not> has_dot (part (split_on CHR ''.'' k) 1 @ ''Id'')"
    by (simp_all add: has_dot_def)
qed


lemma keys_update: "set (obj_keys (obj_set k v al)) = insert k (set (obj_keys al))"
  using dom_update [of k v al] by simp

lemma keys_delete: "set (obj_keys (obj_del k al)) = set (obj_keys al) - {k}"
  by (simp add: delete_keys)

lemma expand_field_dotted:
  assumes dot: "has_dot fieldKey" and f: "obj_get fs fieldKey = Some f"
    and rp: "rp = part (split_on CHR ''.'' fieldKey) 0"
    and rm: "rm = part (split_on CHR ''.'' fieldKey) 1"
  shows "expand_field e pc fieldKey (fs, imps, pm) =
     Inr (obj_del fieldKey
            (obj_set (rm @ ''Id'') (obj_set ''typeFromTypes'' (JStr ''uuid.UUID'') (fst (createFieldVariables f)))
              (obj_set fieldKey (obj_set ''typeFromTypes'' (JStr ''uuid.UUID'') (fst (createFieldVariables f)))
                (obj_set rm [(''typeFromTypes'', JStr (if rp \<noteq> pc then fieldKey else rm)),
                             (''misc'', JStr ''constraint:OnDelete:CASCADE;'')]
                  (obj_set fieldKey (fst (createFieldVariables f)) fs)))),
          (if rp \<noteq> pc then addToImports (JStr (getLocalModelPackageStr e rp)) imps ''local'' else imps),
          Some fieldKey)"
proof -
  from dot rm have "\<not> has_dot rm" and "\<not> has_dot (rm @ ''Id'')"
    using related_names_no_dot [of fieldKey] by simp_all
  with dot have ne: "rm \<noteq> fieldKey" "rm @ ''Id'' \<noteq> fieldKey" by auto
  show ?thesis
    using dot f ne unfolding rp rm
    by (simp add: expand_field_def createRelationShips_def updateField_def Let_def
          update_conv')
qed

lemma expand_field_plain:
  assumes "\<not> has_dot fieldKey" and "obj_get fs fieldKey = Some f"
  shows "expand_field e pc fieldKey (fs, imps, pm) =
     Inr (obj_set fieldKey (fst (createFieldVariables f)) fs, imps, pm)"
  using assms
  by (simp add: expand_field_def createRelationShips_def updateField_def update_conv')



lemma resolve_field_plain:
  assumes "\<not> has_dot k" and "obj_get fs k = Some g"
  shows "resolve_field e k (fs, imps, pm) =
     (obj_set k (setFloatType e (setIntType e (setTimeType (setFieldLength
           (setDefaultValue e (setDefaultFieldType (fst (createFieldVariables g)))))))) fs,
      setPrimarykey (JBool False) k (setDefaultFieldType (fst (createFieldVariables g)))
        (addToImports (snd (createFieldVariables g)) imps ''''),
      pm)"
  using assms
  by (simp add: resolve_field_def updateField_def Let_def split_beta)


lemma obj_get_Some_key: "obj_get al k = Some v \<Longrightarrow> k \<in> set (obj_keys al)"
  by (induction al) (auto split: if_splits)

lemma key_obj_get: "k \<in> set (obj_keys al) \<Longrightarrow> \<exists>v. obj_get al k = Some v"
  by (induction al) auto

lemma expand_field_dotted_keys:
  assumes dot: "has_dot k" and f: "obj_get fs k = Some f"
  shows "\<exists>fs' imports'.
     expand_field e pc k (fs, imps, pm) = Inr (fs', imports', Some k) \<and>
     set (obj_keys fs') = set (obj_keys fs) - {k} \<union>
          {part (split_on CHR ''.'' k) 1, part (split_on CHR ''.'' k) 1 @ ''Id''}"
proof -
  let ?rm = "part (split_on CHR ''.'' k) 1"
  let ?f' = "fst (createFieldVariables f)"
  let ?idf = "obj_set ''typeFromTypes'' (JStr ''uuid.UUID'') ?f'"
  let ?ref = "[(''typeFromTypes'', JStr (if part (split_on CHR ''.'' k) 0 \<noteq> pc then k else ?rm)),
               (''misc'', JStr ''constraint:OnDelete:CASCADE;'')]"
  let ?fs' = "obj_del k (obj_set (?rm @ ''Id'') ?idf
               (obj_set k ?idf (obj_set ?rm ?ref (obj_set k ?f' fs))))"
  from dot have nd: "\<not> has_dot ?rm" "\<not> has_dot (?rm @ ''Id'')"
    by (rule related_names_no_dot)+
  with dot have ne: "?rm \<noteq> k" "?rm @ ''Id'' \<noteq> k"
    by auto
  from f have kin: "k \<in> set (obj_keys fs)" by (rule obj_get_Some_key)
  have keys: "set (obj_keys ?fs') = set (obj_keys fs) - {k} \<union> {?rm, ?rm @ ''Id''}"
    unfolding keys_delete keys_update using ne kin by auto
  from expand_field_dotted [OF dot f refl refl, of e pc imps pm] keys show ?thesis
    by blast
qed

text \<open>One step of the first loop on a key that the field map has.\<close>

lemma expand_field_step:
  assumes "k \<in> set (obj_keys fs)"
  shows "\<exists>fs' imports'.
     expand_field e pc k (fs, imps, pm) = Inr (fs', imports', if has_dot k then Some k else pm) \<and>
     set (obj_keys fs) - {k} \<subseteq> set (obj_keys fs') \<and>
     {x \<in> set (obj_keys fs'). has_dot x} = {x \<in> set (obj_keys fs). has_dot x} - {k}"
proof -
  from key_obj_get [OF assms] obtain f where f: "obj_get fs k = Some f"
    by blast
  show ?thesis
  proof (cases "has_dot k")
    case True
    from expand_field_dotted_keys [OF True f, of e pc imps pm]
    obtain fs' imports' where
      run: "expand_field e pc k (fs, imps, pm) = Inr (fs', imports', Some k)"
      and keys: "set (obj_keys fs') = set (obj_keys fs) - {k} \<union>
          {part (split_on CHR ''.'' k) 1, part (split_on CHR ''.'' k) 1 @ ''Id''}"
      by blast
    define rm where "rm = part (split_on CHR ''.'' k) 1"
    from True have nd: "\<not> has_dot rm" "\<not> has_dot (rm @ ''Id'')"
      unfolding rm_def by (rule related_names_no_dot)+
    from keys have keys': "set (obj_keys fs') = set (obj_keys fs) - {k} \<union> {rm, rm @ ''Id''}"
      unfolding rm_def .
    have sub: "set (obj_keys fs) - {k} \<subseteq> set (obj_keys fs')"
      unfolding keys' by blast
    have dots: "{x \<in> set (obj_keys fs'). has_dot x} = {x \<in> set (obj_keys fs). has_dot x} - {k}"
      unfolding keys' using nd by blast
    from run sub dots show ?thesis
      unfolding if_P [OF True] by blast
  next
    case False
    have keys: "set (obj_keys (obj_set k (fst (createFieldVariables f)) fs)) = set (obj_keys fs)"
      unfolding keys_update using assms by blast
    have sub: "set (obj_keys fs) - {k}
        \<subseteq> set (obj_keys (obj_set k (fst (createFieldVariables f)) fs))"
      unfolding keys by blast
    have dots: "{x \<in> set (obj_keys (obj_set k (fst (createFieldVariables f)) fs)). has_dot x}
        = {x \<in> set (obj_keys fs). has_dot x} - {k}"
      unfolding keys using False by blast
    from expand_field_plain [OF False f, of e pc imps pm] sub dots show ?thesis
      unfolding if_not_P [OF False] by blast
  qed
qed

text \<open>The first loop, started on keys that the field map has.\<close>

lemma expand_loop:
  assumes "distinct ks" and "set ks \<subseteq> set (obj_keys fs)"
  shows "\<exists>fs' imports'.
     fold_err (expand_field e pc) ks (fs, imps, pm) =
       Inr (fs', imports', case filter has_dot ks of [] \<Rightarrow> pm | d # ds \<Rightarrow> Some (last (d # ds))) \<and>
     {x \<in> set (obj_keys fs'). has_dot x} = {x \<in> set (obj_keys fs). has_dot x} - set ks"
  using assms
proof (induction ks arbitrary: fs imps pm)
  case Nil
  then show ?case by simp
next
  case (Cons k ks)
  from Cons.prems have k: "k \<in> set (obj_keys fs)" by simp
  from expand_field_step [OF k, of e pc imps pm] obtain fs1 imports1 where
    step: "expand_field e pc k (fs, imps, pm) = Inr (fs1, imports1, if has_dot k then Some k else pm)"
    and sub: "set (obj_keys fs) - {k} \<subseteq> set (obj_keys fs1)"
    and dots: "{x \<in> set (obj_keys fs1). has_dot x} = {x \<in> set (obj_keys fs). has_dot x} - {k}"
    by blast
  from Cons.prems sub have "distinct ks" and "set ks \<subseteq> set (obj_keys fs1)" by auto
  from Cons.IH [OF this, of imports1 "if has_dot k then Some k else pm"]
  obtain fs' imports' where
    rest: "fold_err (expand_field e pc) ks (fs1, imports1, if has_dot k then Some k else pm) =
       Inr (fs', imports', case filter has_dot ks of [] \<Rightarrow> (if has_dot k then Some k else pm)
                             | d # ds \<Rightarrow> Some (last (d # ds)))"
    and dots': "{x \<in> set (obj_keys fs'). has_dot x} = {x \<in> set (obj_keys fs1). has_dot x} - set ks"
    by blast
  have pm: "(case filter has_dot ks of [] \<Rightarrow> (if has_dot k then Some k else pm)
                             | d # ds \<Rightarrow> Some (last (d # ds)))
        = (case filter has_dot (k # ks) of [] \<Rightarrow> pm | d # ds \<Rightarrow> Some (last (d # ds)))"
    by (cases "filter has_dot ks") auto
  from dots dots' have "{x \<in> set (obj_keys fs'). has_dot x} = {x \<in> set (obj_keys fs). has_dot x} - set (k # ks)"
    by auto
  with step rest pm show ?case by simp
qed

text \<open>The second loop on a field map without dotted keys.\<close>

lemma resolve_field_keeps:
  assumes "\<not> has_dot k"
  shows "\<exists>fs' imports'. resolve_field e k (fs, imps, pm) = (fs', imports', pm) \<and>
           set (obj_keys fs') = set (obj_keys fs)"
proof (cases "obj_get fs k")
  case None
  then show ?thesis by (simp add: resolve_field_def)
next
  case (Some g)
  then have "k \<in> set (obj_keys fs)" by (rule obj_get_Some_key)
  then have "set (obj_keys (obj_set k v fs)) = set (obj_keys fs)" for v
    unfolding keys_update by blast
  with resolve_field_plain [OF assms Some, of e imps pm] show ?thesis by simp
qed

lemma resolve_loop:
  assumes "\<forall>k \<in> set ks. \<not> has_dot k"
  shows "\<exists>fs' imports'. fold (resolve_field e) ks (fs, imps, pm) = (fs', imports', pm) \<and>
           set (obj_keys fs') = set (obj_keys fs)"
  using assms
proof (induction ks arbitrary: fs imps)
  case Nil
  then show ?case by simp
next
  case (Cons k ks)
  then have "\<not> has_dot k" by simp
  from resolve_field_keeps [OF this, of e fs imps pm] obtain fs1 imports1 where
    s: "resolve_field e k (fs, imps, pm) = (fs1, imports1, pm)"
    and k: "set (obj_keys fs1) = set (obj_keys fs)" by blast
  from Cons.prems have "\<forall>k \<in> set ks. \<not> has_dot k" by simp
  from Cons.IH [OF this, of fs1 imports1] s k show ?case by auto
qed

lemma process_fields_result:
  assumes "distinct (obj_keys fs)"
  shows "\<exists>fs' imports'.
     process_fields e pc fs =
       Inr (fs', imports', case filter has_dot (obj_keys fs) of [] \<Rightarrow> None | d # ds \<Rightarrow> Some (last (d # ds))) \<and>
     (\<forall>k \<in> set (obj_keys fs'). \<not> has_dot k)"
proof -
  from expand_loop [OF assms order_refl, of e pc "[]" None] obtain fs1 imports1 where
    l1: "fold_err (expand_field e pc) (obj_keys fs) (fs, [], None) =
       Inr (fs1, imports1, case filter has_dot (obj_keys fs) of [] \<Rightarrow> None | d # ds \<Rightarrow> Some (last (d # ds)))"
    and nd: "{x \<in> set (obj_keys fs1). has_dot x} = {x \<in> set (obj_keys fs). has_dot x} - set (obj_keys fs)"
    by blast
  from nd have nodot: "\<forall>k \<in> set (obj_keys fs1). \<not> has_dot k" by auto
  from resolve_loop [OF nodot, of e fs1 imports1] obtain fs2 imports2 where
    l2: "fold (resolve_field e) (obj_keys fs1) (fs1, imports1,
            case filter has_dot (obj_keys fs) of [] \<Rightarrow> None | d # ds \<Rightarrow> Some (last (d # ds)))
         = (fs2, imports2, case filter has_dot (obj_keys fs) of [] \<Rightarrow> None | d # ds \<Rightarrow> Some (last (d # ds)))"
    and k2: "set (obj_keys fs2) = set (obj_keys fs1)" by blast
  have nodot2: "\<forall>k \<in> set (obj_keys fs2). \<not> has_dot k"
    unfolding k2 by (rule nodot)
  from l1 l2 have "process_fields e pc fs =
       Inr (fs2, imports2, case filter has_dot (obj_keys fs) of [] \<Rightarrow> None | d # ds \<Rightarrow> Some (last (d # ds)))"
    by (simp add: process_fields_def)
  with nodot2 show ?thesis by blast
qed

lemma record_parent_get:
  assumes "p \<noteq> []"
  shows "obj_get (record_parent (Some p) c h) key =
     (if key = p then Some ((case obj_get h p of None \<Rightarrow> [] | Some cs \<Rightarrow> cs) @ [c]) else obj_get h key)"
  using assms by (simp add: record_parent_def update_conv' split: option.splits)




text \<open>
  C5 (as the code has it).  The holder \<^verbatim>\<open>parentModel\<close> has one value, which every dotted
  field key overwrites.  A model is therefore recorded in the parent to children table
  once, under the last of its dotted field keys, and under no other key; a model without
  a dotted field key is not recorded.
\<close>

theorem process_model_records_last_dotted_key:
  assumes "distinct (obj_keys fs)"
  shows "\<exists>st'. process_model e pc (m, fs) st = Inr st' \<and>
     allModelStrs st' = allModelStrs st @ [pc @ ''Models.'' @ m] \<and>
     (\<forall>key. obj_get (allModelsWithHierarchyData st') key =
        (if filter has_dot (obj_keys fs) \<noteq> [] \<and> key = last (filter has_dot (obj_keys fs))
         then Some ((case obj_get (allModelsWithHierarchyData st) key of None \<Rightarrow> [] | Some cs \<Rightarrow> cs)
                      @ [pc @ ''.'' @ m])
         else obj_get (allModelsWithHierarchyData st) key))"
proof -
  from process_fields_result [OF assms, of e pc] obtain fs' imports' where
    pf: "process_fields e pc fs =
       Inr (fs', imports', case filter has_dot (obj_keys fs) of [] \<Rightarrow> None | d # ds \<Rightarrow> Some (last (d # ds)))"
    by blast
  let ?st' = "\<lparr>rendered = rendered st @ [(pc, m, fs', imports')],
               allModelStrs = allModelStrs st @ [pc @ ''Models.'' @ m],
               allModelsWithHierarchyData =
                 record_parent (case filter has_dot (obj_keys fs) of [] \<Rightarrow> None | d # ds \<Rightarrow> Some (last (d # ds)))
                   (pc @ ''.'' @ m) (allModelsWithHierarchyData st)\<rparr>"
  from pf have run: "process_model e pc (m, fs) st = Inr ?st'"
    by (simp add: process_model_def)
  have hier: "obj_get (allModelsWithHierarchyData ?st') key =
        (if filter has_dot (obj_keys fs) \<noteq> [] \<and> key = last (filter has_dot (obj_keys fs))
         then Some ((case obj_get (allModelsWithHierarchyData st) key of None \<Rightarrow> [] | Some cs \<Rightarrow> cs)
                      @ [pc @ ''.'' @ m])
         else obj_get (allModelsWithHierarchyData st) key)" for key
  proof (cases "filter has_dot (obj_keys fs)")
    case Nil
    then show ?thesis by (simp add: record_parent_def)
  next
    case (Cons d ds)
    then have "last (d # ds) \<in> set (filter has_dot (obj_keys fs))"
      by (metis last_in_set list.distinct(1))
    then have "has_dot (last (d # ds))" by simp
    then have ne: "last (d # ds) \<noteq> []" by (auto simp: has_dot_def)
    from record_parent_get [OF ne, of "pc @ ''.'' @ m" "allModelsWithHierarchyData st" key] Cons
    show ?thesis by simp
  qed
  from run hier show ?thesis by simp
qed

theorem process_model_records_last_dotted_key_witness:
  "distinct (obj_keys [(''a.P'', []), (''name'', []), (''b.Q'', [])]) \<and>
   (\<exists>st'. process_model host0 ''c'' (''M'', [(''a.P'', []), (''name'', []), (''b.Q'', [])])
            \<lparr>rendered = [], allModelStrs = [], allModelsWithHierarchyData = [(''b.Q'', [''c.L''])]\<rparr> = Inr st' \<and>
      allModelStrs st' = [''cModels.M''] \<and>
      obj_get (allModelsWithHierarchyData st') ''b.Q'' = Some [''c.L'', ''c.M''] \<and>
      obj_get (allModelsWithHierarchyData st') ''a.P'' = None)"
proof -
  have d: "distinct (obj_keys [(''a.P'', []), (''name'', []), (''b.Q'', [])])"
    by simp
  have l: "filter has_dot (obj_keys [(''a.P'', []), (''name'', []), (''b.Q'', [])]) = [''a.P'', ''b.Q'']"
    by (simp add: has_dot_def)
  from process_model_records_last_dotted_key [OF d, of host0 "''c''" "''M''"
      "\<lparr>rendered = [], allModelStrs = [], allModelsWithHierarchyData = [(''b.Q'', [''c.L''])]\<rparr>"]
  show ?thesis
    unfolding l using d by auto
qed

text \<open>The claim C5 as it is written fails for a model with the two dotted field keys
  \<^verbatim>\<open>a.P\<close> and \<^verbatim>\<open>b.Q\<close>: the table that \<^verbatim>\<open>processModels\<close> builds has the model under
  \<^verbatim>\<open>b.Q\<close> and has no entry for \<^verbatim>\<open>a.P\<close>.\<close>

theorem processModels_records_one_parent:
  "map_sum id (\<lambda>r. allModelsWithHierarchyData (fst r))
      (processModels host0 [(''c'', [(''M'', [(''a.P'', []), (''b.Q'', [])])])])
     = Inr [(''b.Q'', [''c.M''])]"
  by code_simp

section \<open>HierarchySorter: properties\<close>

lemma fold_append:
  assumes step: "\<And>m s. f m s = s \<or> (f m s = s @ [m] \<and> m \<notin> set s \<and> Q m)"
  shows "\<exists>t. fold f ms s = s @ t \<and> set t \<subseteq> set ms \<and> (\<forall>x \<in> set t. Q x) \<and>
             distinct t \<and> set t \<inter> set s = {}"
proof (induction ms arbitrary: s)
  case Nil
  then show ?case by simp
next
  case (Cons m ms)
  from step [of m s] show ?case
  proof
    assume "f m s = s"
    with Cons.IH [of s] show ?thesis by auto
  next
    assume a: "f m s = s @ [m] \<and> m \<notin> set s \<and> Q m"
    from Cons.IH [of "s @ [m]"] obtain t where
      t: "fold f ms (s @ [m]) = (s @ [m]) @ t" "set t \<subseteq> set ms" "\<forall>x \<in> set t. Q x"
         "distinct t" "set t \<inter> set (s @ [m]) = {}"
      by blast
    from a t have "fold f (m # ms) s = s @ (m # t)" by simp
    moreover from t have "set (m # t) \<subseteq> set (m # ms)" by auto
    moreover from a t have "\<forall>x \<in> set (m # t). Q x" by simp
    moreover from t have "distinct (m # t)" by auto
    moreover from a t have "set (m # t) \<inter> set s = {}" by auto
    ultimately show ?thesis by blast
  qed
qed

lemma place_child_step:
  "place_child h m s = s \<or> (place_child h m s = s @ [m] \<and> m \<notin> set s \<and> parents_of h m \<noteq> [])"
  by (auto simp: place_child_def split: list.splits)

lemma place_rest_step:
  "place_rest m s = s \<or> (place_rest m s = s @ [m] \<and> m \<notin> set s \<and> True)"
  by (simp add: place_rest_def)

lemma passes_append:
  "\<exists>t. ((one_pass ms h) ^^ n) s = s @ t \<and> set t \<subseteq> set ms \<and> (\<forall>x \<in> set t. parents_of h x \<noteq> []) \<and>
        distinct t \<and> set t \<inter> set s = {}"
proof (induction n)
  case 0
  then show ?case by simp
next
  case (Suc n)
  then obtain t where t: "((one_pass ms h) ^^ n) s = s @ t" "set t \<subseteq> set ms"
      "\<forall>x \<in> set t. parents_of h x \<noteq> []" "distinct t" "set t \<inter> set s = {}"
    by blast
  from fold_append [of "place_child h" "\<lambda>m. parents_of h m \<noteq> []" ms "s @ t", OF place_child_step]
  obtain u where u: "fold (place_child h) ms (s @ t) = (s @ t) @ u" "set u \<subseteq> set ms"
      "\<forall>x \<in> set u. parents_of h x \<noteq> []" "distinct u" "set u \<inter> set (s @ t) = {}"
    by blast
  from t u have "((one_pass ms h) ^^ Suc n) s = s @ (t @ u)"
    by (simp add: one_pass_def)
  moreover from t u have "set (t @ u) \<subseteq> set ms" by simp
  moreover from t u have "\<forall>x \<in> set (t @ u). parents_of h x \<noteq> []" by auto
  moreover from t u have "distinct (t @ u)" by auto
  moreover from t u have "set (t @ u) \<inter> set s = {}" by auto
  ultimately show ?case by blast
qed

lemma place_rest_all: "set ms \<union> set s \<subseteq> set (fold place_rest ms s)"
proof (induction ms arbitrary: s)
  case Nil
  then show ?case by simp
next
  case (Cons m ms)
  have "set ms \<union> set (place_rest m s) \<subseteq> set (fold place_rest ms (place_rest m s))"
    by (rule Cons.IH)
  moreover have "insert m (set s) \<subseteq> set (place_rest m s)"
    by (auto simp: place_rest_def)
  ultimately show ?case by auto
qed

lemma sort_decomposition:
  "\<exists>t. sortModelsByHierarchy ms h = seed_models ms h @ t \<and> set t \<subseteq> set ms \<and>
        (\<forall>x \<in> set t. parents_of h x \<noteq> []) \<and> distinct t \<and> set t \<inter> set (seed_models ms h) = {}"
proof -
  let ?seed = "seed_models ms h"
  from passes_append [where ms = ms and h = h and n = 6 and s = "?seed"] obtain t where
    t: "((one_pass ms h) ^^ 6) ?seed = ?seed @ t" "set t \<subseteq> set ms"
      "\<forall>x \<in> set t. parents_of h x \<noteq> []" "distinct t" "set t \<inter> set ?seed = {}"
    by blast
  from fold_append [of place_rest "\<lambda>m. True" ms "?seed @ t", OF place_rest_step]
  obtain u where u: "fold place_rest ms (?seed @ t) = (?seed @ t) @ u" "set u \<subseteq> set ms"
      "distinct u" "set u \<inter> set (?seed @ t) = {}"
    by blast
  have "\<forall>x \<in> set u. parents_of h x \<noteq> []"
  proof
    fix x assume x: "x \<in> set u"
    with u have "x \<in> set ms" and "x \<notin> set ?seed" by auto
    then show "parents_of h x \<noteq> []" by (simp add: seed_models_def)
  qed
  with t have "\<forall>x \<in> set (t @ u). parents_of h x \<noteq> []" by auto
  moreover from t u have "sortModelsByHierarchy ms h = ?seed @ (t @ u)"
    by (simp add: sortModelsByHierarchy_def)
  moreover from t u have "set (t @ u) \<subseteq> set ms" by simp
  moreover from t u have "distinct (t @ u)" by auto
  moreover from t u have "set (t @ u) \<inter> set ?seed = {}" by auto
  ultimately show ?thesis by blast
qed

text \<open>
  C9 (as the code has it).  The output of \<^verbatim>\<open>sortModelsByHierarchy\<close> begins with the models
  that are in no child list of the table, in the order of the input; every model after
  them, placed by one of the six passes or by the last loop, is in some child list.  The
  output has the same models as the input, and when no model name occurs twice in the
  input, none occurs twice in the output.  The first loop pushes without looking at what is
  already placed, so a name that is twice in the input and in no child list is twice in
  the output.
\<close>

theorem sortModelsByHierarchy_parents_first_no_repeats:
  "take (length (filter (\<lambda>m. parents_of h m = []) ms)) (sortModelsByHierarchy ms h)
     = filter (\<lambda>m. parents_of h m = []) ms \<and>
   (\<forall>m \<in> set (drop (length (filter (\<lambda>m. parents_of h m = []) ms)) (sortModelsByHierarchy ms h)).
      parents_of h m \<noteq> []) \<and>
   set (sortModelsByHierarchy ms h) = set ms \<and>
   (distinct ms \<longrightarrow> distinct (sortModelsByHierarchy ms h))"
proof -
  from sort_decomposition [of ms h] obtain t where
    t: "sortModelsByHierarchy ms h = seed_models ms h @ t" "set t \<subseteq> set ms"
       "\<forall>x \<in> set t. parents_of h x \<noteq> []" "distinct t" "set t \<inter> set (seed_models ms h) = {}"
    by blast
  have sub: "set (seed_models ms h) \<subseteq> set ms" by (auto simp: seed_models_def)
  have "set ms \<subseteq> set (sortModelsByHierarchy ms h)"
    using place_rest_all [of ms "((one_pass ms h) ^^ 6) (seed_models ms h)"]
    by (simp add: sortModelsByHierarchy_def)
  with t sub have sets: "set (sortModelsByHierarchy ms h) = set ms" by auto
  have dist: "distinct ms \<longrightarrow> distinct (sortModelsByHierarchy ms h)"
    using t by (auto simp: seed_models_def)
  from t sets dist show ?thesis by (simp add: seed_models_def)
qed
theorem sortModelsByHierarchy_parents_first_no_repeats_witness:
  "distinct [''blogModels.Comment'', ''blogModels.Post''] \<and>
   seed_models [''blogModels.Comment'', ''blogModels.Post'']
       [(''blog.Post'', [''blog.Comment''])] = [''blogModels.Post''] \<and>
   sortModelsByHierarchy [''blogModels.Comment'', ''blogModels.Post'']
       [(''blog.Post'', [''blog.Comment''])]
     = [''blogModels.Post'', ''blogModels.Comment''] \<and>
   distinct (sortModelsByHierarchy [''blogModels.Comment'', ''blogModels.Post'']
       [(''blog.Post'', [''blog.Comment''])])"
proof -
  have d: "distinct [''blogModels.Comment'', ''blogModels.Post'']"
    by simp
  have run: "sortModelsByHierarchy [''blogModels.Comment'', ''blogModels.Post'']
       [(''blog.Post'', [''blog.Comment''])]
     = [''blogModels.Post'', ''blogModels.Comment'']"
    by code_simp
  have seed: "seed_models [''blogModels.Comment'', ''blogModels.Post'']
       [(''blog.Post'', [''blog.Comment''])] = [''blogModels.Post'']"
    by code_simp
  from sortModelsByHierarchy_parents_first_no_repeats
      [of "[(''blog.Post'', [''blog.Comment''])]"
          "[''blogModels.Comment'', ''blogModels.Post'']"] d
  have "distinct (sortModelsByHierarchy [''blogModels.Comment'', ''blogModels.Post'']
       [(''blog.Post'', [''blog.Comment''])])"
    by (elim conjE impE)
  with d seed run show ?thesis
    by (intro conjI)
qed

text \<open>The claim C9 as it is written fails for an input list that has a model name twice:
  with an empty table both occurrences are pushed by the first loop.\<close>

theorem sortModelsByHierarchy_repeats_input_duplicates:
  "sortModelsByHierarchy [''aModels.X'', ''aModels.X''] [] = [''aModels.X'', ''aModels.X''] \<and>
   \<not> distinct (sortModelsByHierarchy [''aModels.X'', ''aModels.X''] [])"
  by code_simp

section \<open>RouteProjector: properties\<close>



lemma obj_del_filter: "obj_del k al = filter (\<lambda>kv. fst kv \<noteq> k) al"
  by (induction al) auto

lemma strip_fold:
  "fold (\<lambda>key f. if key \<noteq> ''api'' then obj_del key f else f) ks field
     = filter (\<lambda>kv. fst kv = ''api'' \<or> fst kv \<notin> set ks) field"
proof (induction ks arbitrary: field)
  case Nil
  then show ?case by simp
next
  case (Cons k ks)
  show ?case
    by (auto simp: Cons.IH obj_del_filter intro!: filter_cong)
qed

lemma strip_field_filter: "strip_field field = filter (\<lambda>kv. fst kv = ''api'') field"
  unfolding strip_field_def strip_fold
  by (rule filter_cong) auto

lemma obj_set_append_fresh:
  "k \<notin> set (obj_keys xs) \<Longrightarrow> obj_set k v (xs @ (k, w) # ys) = xs @ (k, v) # ys"
  by (induction xs) auto

lemma obj_del_append_fresh:
  "k \<notin> set (obj_keys xs) \<Longrightarrow> k \<notin> set (obj_keys ys) \<Longrightarrow> obj_del k (xs @ (k, w) # ys) = xs @ ys"
  by (induction xs) (auto simp: obj_del_filter filter_id_conv)

lemma obj_get_append_fresh:
  "k \<notin> set (obj_keys xs) \<Longrightarrow> obj_get (xs @ (k, w) # ys) k = Some w"
  by (induction xs) auto

lemma strip_step_head:
  assumes "f \<notin> set (obj_keys done)" and "f \<notin> set (obj_keys todo)"
  shows "strip_step f (done @ (f, p) # todo) =
     (if strip_field p = [] then done @ todo else (done @ [(f, strip_field p)]) @ todo)"
proof -
  have g: "obj_get (done @ (f, p) # todo) f = Some p"
    using assms(1) by (rule obj_get_append_fresh)
  have d: "obj_del f (done @ (f, p) # todo) = done @ todo"
    using assms by (rule obj_del_append_fresh)
  have u: "obj_set f (strip_field p) (done @ (f, p) # todo) = (done @ [(f, strip_field p)]) @ todo"
    using obj_set_append_fresh [OF assms(1), of "strip_field p" p todo] by simp
  show ?thesis
    unfolding strip_step_def g by (simp add: d u)
qed

lemma strip_model_fold:
  assumes "distinct (obj_keys (done @ todo))"
  shows "fold strip_step (obj_keys todo) (done @ todo) = done @ stripped todo"
  using assms
proof (induction todo arbitrary: "done")
  case Nil
  then show ?case by (simp add: stripped_def)
next
  case (Cons fp todo)
  obtain f p where fp: "fp = (f, p)" by (cases fp)
  from Cons.prems fp have fresh: "f \<notin> set (obj_keys done)" "f \<notin> set (obj_keys todo)"
    by auto
  note step = strip_step_head [OF fresh, of p]
  show ?case
  proof (cases "strip_field p = []")
    case True
    from Cons.prems fp have "distinct (obj_keys (done @ todo))" by simp
    from Cons.IH [OF this] have ih: "fold strip_step (obj_keys todo) (done @ todo) = done @ stripped todo" .
    from True have "stripped ((f, p) # todo) = stripped todo"
      by (simp add: stripped_def)
    with ih True step show ?thesis
      by (simp add: fp)
  next
    case False
    from Cons.prems fp have "distinct (obj_keys ((done @ [(f, strip_field p)]) @ todo))" by simp
    from Cons.IH [OF this] have ih: "fold strip_step (obj_keys todo) ((done @ [(f, strip_field p)]) @ todo)
        = (done @ [(f, strip_field p)]) @ stripped todo" .
    from False have "stripped ((f, p) # todo) = (f, strip_field p) # stripped todo"
      by (simp add: stripped_def)
    with ih False step show ?thesis
      by (simp add: fp)
  qed
qed

lemma strip_model_stripped:
  "distinct (obj_keys m) \<Longrightarrow> strip_model m = stripped m"
  using strip_model_fold [of "[]" m] by (simp add: strip_model_def)






lemma string_of_nat_digit:
  "string_of_nat n \<noteq> [] \<and> hd (string_of_nat n) \<in> set ''0123456789''"
proof (induction n rule: string_of_nat.induct)
  case (1 n)
  show ?case
  proof (cases "n < 10")
    case True
    then have "''0123456789'' ! n \<in> set ''0123456789''" by (intro nth_mem) simp
    with True show ?thesis by (simp add: string_of_nat.simps [of n])
  next
    case False
    with 1 have "string_of_nat (n div 10) \<noteq> [] \<and> hd (string_of_nat (n div 10)) \<in> set ''0123456789''"
      by simp
    with False show ?thesis
      by (simp add: string_of_nat.simps [of n])
  qed
qed

lemma action_not_index: "a \<in> set actions \<Longrightarrow> a \<notin> set (map string_of_nat ns)"
proof
  assume a: "a \<in> set actions" and "a \<in> set (map string_of_nat ns)"
  then obtain n where "a = string_of_nat n" by auto
  with string_of_nat_digit [of n] have "hd a \<in> set ''0123456789''" by simp
  with a show False by (auto simp: actions_def)
qed

text \<open>The list of fields for an action, when no field has an undefined api property.\<close>

lemma fields_with_action_ok:
  assumes "\<forall>fp \<in> set xs. get_prop (snd fp) ''api'' \<noteq> JUndefined" and "a \<in> set actions"
  shows "fields_with_action a xs = Inr (map fst (filter (\<lambda>fp. a \<in> api_keys (snd fp)) xs))"
  using assms(1)
proof (induction xs)
  case Nil
  then show ?case by simp
next
  case (Cons fp xs)
  then have ih: "fields_with_action a xs = Inr (map fst (filter (\<lambda>fp. a \<in> api_keys (snd fp)) xs))"
    by simp
  from Cons.prems have u: "get_prop (snd fp) ''api'' \<noteq> JUndefined" by simp
  show ?case
  proof (cases "get_prop (snd fp) ''api''")
    case JUndefined
    with u show ?thesis by simp
  next
    case (JStr s)
    then have "a \<notin> api_keys (snd fp)"
      by (auto simp: api_keys_def get_prop_def split: option.splits)
    moreover have "a \<notin> set (map string_of_nat [0..<length s])"
      using assms(2) by (rule action_not_index)
    ultimately show ?thesis using JStr ih by simp
  next
    case (JNum r)
    then have "a \<notin> api_keys (snd fp)"
      by (auto simp: api_keys_def get_prop_def split: option.splits)
    with JNum ih show ?thesis by simp
  next
    case (JBool b)
    then have "a \<notin> api_keys (snd fp)"
      by (auto simp: api_keys_def get_prop_def split: option.splits)
    with JBool ih show ?thesis by simp
  next
    case (JObj kvs)
    then have "api_keys (snd fp) = set (obj_keys kvs)"
      by (auto simp: api_keys_def get_prop_def split: option.splits)
    with JObj ih show ?thesis by simp
  qed
qed

lemma filter_key_None: "obj_get p k = None \<Longrightarrow> filter (\<lambda>kv. fst kv = k) p = []"
  by (induction p) (auto split: if_splits)

lemma filter_key_get: "obj_get (filter (\<lambda>kv. fst kv = k) p) k = obj_get p k"
  by (induction p) auto

lemma strip_field_api: "obj_get (strip_field p) ''api'' = obj_get p ''api''"
  unfolding strip_field_filter by (rule filter_key_get)

lemma strip_field_empty: "strip_field p = [] \<longleftrightarrow> obj_get p ''api'' = None"
proof
  assume "strip_field p = []"
  then have "obj_get (strip_field p) ''api'' = None" by simp
  then show "obj_get p ''api'' = None" by (simp add: strip_field_api)
next
  assume "obj_get p ''api'' = None"
  then show "strip_field p = []"
    unfolding strip_field_filter by (rule filter_key_None)
qed



lemma stripped_has_api:
  assumes "\<forall>fp \<in> set m. api_ok (snd fp)" and "fp \<in> set (stripped m)"
  shows "get_prop (snd fp) ''api'' \<noteq> JUndefined"
proof -
  from assms(2) obtain p where p: "(fst fp, p) \<in> set m" "snd fp = strip_field p" "strip_field p \<noteq> []"
    by (auto simp: stripped_def)
  from p(3) have "obj_get p ''api'' \<noteq> None" by (simp add: strip_field_empty)
  moreover from assms(1) p(1) have "api_ok p" by auto
  ultimately have "get_prop p ''api'' \<noteq> JUndefined"
    by (auto simp: api_ok_def get_prop_def split: option.splits jsval.splits)
  with p(2) show ?thesis by (simp add: get_prop_def strip_field_api)
qed



lemma set_action_listed:
  assumes "\<forall>fp \<in> set m. api_ok (snd fp)" and "a \<in> set actions"
  shows "set_action (stripped m) a entry =
     Inr (if listed m a = [] then obj_del a (obj_set a (listed m a) entry)
          else obj_set a (listed m a) entry)"
proof -
  from assms(1) have "\<forall>fp \<in> set (stripped m). get_prop (snd fp) ''api'' \<noteq> JUndefined"
    using stripped_has_api by blast
  from fields_with_action_ok [OF this assms(2)] show ?thesis
    by (simp add: set_action_def listed_def)
qed

lemma route_model_entry:
  assumes "distinct (obj_keys m)" and "\<forall>fp \<in> set m. api_ok (snd fp)"
  shows "\<exists>entry. route_model m = Inr (stripped m, entry) \<and>
     (\<forall>a. obj_get entry a = (if a \<in> set actions \<and> listed m a \<noteq> [] then Some (listed m a) else None))"
proof -
  have sa: "set_action (stripped m) a entry =
     Inr (if listed m a = [] then obj_del a (obj_set a (listed m a) entry)
          else obj_set a (listed m a) entry)"
    if "a = ''create'' \<or> a = ''read'' \<or> a = ''update'' \<or> a = ''delete''" for a entry
    using that by (intro set_action_listed [OF assms(2)]) (auto simp: actions_def)
  show ?thesis
    unfolding route_model_def strip_model_stripped [OF assms(1)] Let_def actions_def
    by (auto simp: sa update_conv' delete_conv')
qed

lemma route_package_entries:
  assumes "\<forall>mm \<in> set pkg. \<exists>e. route_model (snd mm) = Inr (stripped (snd mm), e)"
  shows "\<exists>rp. route_package pkg = Inr (map (\<lambda>mm. (fst mm, stripped (snd mm))) pkg, rp) \<and>
           obj_keys rp = obj_keys pkg \<and>
           (\<forall>m model. (m, model) \<in> set pkg \<longrightarrow>
              (\<exists>e. route_model model = Inr (stripped model, e) \<and> (m, e) \<in> set rp))"
  using assms
proof (induction pkg)
  case Nil
  then show ?case by simp
next
  case (Cons mm pkg)
  then obtain e where e: "route_model (snd mm) = Inr (stripped (snd mm), e)" by auto
  from Cons obtain rp where
    rp: "route_package pkg = Inr (map (\<lambda>mm. (fst mm, stripped (snd mm))) pkg, rp)"
        "obj_keys rp = obj_keys pkg"
        "\<forall>m model. (m, model) \<in> set pkg \<longrightarrow>
              (\<exists>e. route_model model = Inr (stripped model, e) \<and> (m, e) \<in> set rp)"
    by auto
  have "route_package (mm # pkg)
      = Inr (map (\<lambda>mm. (fst mm, stripped (snd mm))) (mm # pkg), (fst mm, e) # rp)"
    using e rp(1) by simp
  moreover have "obj_keys ((fst mm, e) # rp) = obj_keys (mm # pkg)"
    using rp(2) by simp
  moreover have "\<forall>m model. (m, model) \<in> set (mm # pkg) \<longrightarrow>
              (\<exists>e'. route_model model = Inr (stripped model, e') \<and> (m, e') \<in> set ((fst mm, e) # rp))"
  proof (intro allI impI)
    fix m model assume "(m, model) \<in> set (mm # pkg)"
    then consider "mm = (m, model)" | "(m, model) \<in> set pkg" by auto
    then show "\<exists>e'. route_model model = Inr (stripped model, e') \<and> (m, e') \<in> set ((fst mm, e) # rp)"
    proof cases
      case 1
      with e show ?thesis by auto
    next
      case 2
      with rp(3) show ?thesis by auto
    qed
  qed
  ultimately show ?case by blast
qed



section \<open>The compiled schema that is written\<close>

lemma upt_head: "[a..<a + Suc n] = a # [Suc a..<Suc a + n]"
  by (subst upt_rec) simp

lemma load_packages_eq:
  "load_packages md h =
     (zip (obj_keys md) [length h..<length h + length md], h @ map (\<lambda>pp. PackageObj (snd pp)) md)"
proof (induction md arbitrary: h)
  case Nil
  then show ?case by simp
next
  case (Cons pp md)
  have "[length h..<length h + length (pp # md)]
          = length h # [length (h @ [PackageObj (snd pp)])..<length (h @ [PackageObj (snd pp)]) + length md]"
    using upt_head [of "length h" "length md"] by simp
  then show ?case
    by (simp add: alloc_def Cons.IH del: upt_Suc)
qed

lemma obj_set_fresh: "k \<notin> set (obj_keys al) \<Longrightarrow> obj_set k v al = al @ [(k, v)]"
  by (induction al) auto

lemma assign_props_fresh:
  "distinct (obj_keys (target @ source)) \<Longrightarrow> assign_props target source = target @ source"
proof (induction source arbitrary: target)
  case Nil
  then show ?case by (simp add: assign_props_def)
next
  case (Cons kv source)
  then have fresh: "fst kv \<notin> set (obj_keys target)" by auto
  from Cons.prems have "distinct (obj_keys ((target @ [kv]) @ source))" by simp
  from Cons.IH [OF this] fresh show ?case
    by (simp add: assign_props_def obj_set_fresh)
qed

lemma assign_props_same_keys:
  assumes "obj_keys source = obj_keys todo" and "distinct (obj_keys (done @ todo))"
  shows "assign_props (done @ todo) source = done @ source"
  using assms
proof (induction source arbitrary: "done" todo)
  case Nil
  then show ?case by (simp add: assign_props_def)
next
  case (Cons kv source)
  then obtain w todo' where todo: "todo = (fst kv, w) # todo'" and keys: "obj_keys source = obj_keys todo'"
    by (cases todo) auto
  from Cons.prems(2) todo have fresh: "fst kv \<notin> set (obj_keys done)" by auto
  from Cons.prems(2) todo have "distinct (obj_keys ((done @ [kv]) @ todo'))" by auto
  from Cons.IH [OF keys this] have "assign_props ((done @ [kv]) @ todo') source = (done @ [kv]) @ source" .
  moreover have "obj_set (fst kv) (snd kv) (done @ (fst kv, w) # todo') = (done @ [kv]) @ todo'"
    using obj_set_append_fresh [OF fresh, of "snd kv" w todo'] by simp
  ultimately show ?case
    by (simp add: assign_props_def todo)
qed

text \<open>The loop over the packages, on a store that holds the package objects in a row.\<close>

lemma route_loop:
  assumes "\<forall>pp \<in> set md. route_package (snd pp) = Inr (P (snd pp), R (snd pp))"
  shows "fold_err route_package_at (zip (obj_keys md) [length pre..<length pre + length md])
           (pre @ map (\<lambda>pp. PackageObj (snd pp)) md @ post, reorganized)
         = Inr (pre @ map (\<lambda>pp. PackageObj (P (snd pp))) md @ post @ map (\<lambda>pp. RoutesObj (R (snd pp))) md,
                assign_props reorganized
                  (zip (obj_keys md)
                     [length pre + length md + length post..<length pre + length md + length post + length md]))"
  using assms
proof (induction md arbitrary: pre post reorganized)
  case Nil
  then show ?case by (simp add: assign_props_def)
next
  case (Cons pp md)
  let ?h = "pre @ map (\<lambda>pp. PackageObj (snd pp)) (pp # md) @ post"
  let ?pre' = "pre @ [PackageObj (P (snd pp))]"
  let ?post' = "post @ [RoutesObj (R (snd pp))]"
  from Cons.prems have rp: "route_package (snd pp) = Inr (P (snd pp), R (snd pp))"
    and rest: "\<forall>pp \<in> set md. route_package (snd pp) = Inr (P (snd pp), R (snd pp))"
    by simp_all
  have get: "heap_get ?h (length pre) = Some (PackageObj (snd pp))"
    by (simp add: heap_get_def nth_append)
  have set: "heap_set (length pre) (PackageObj (P (snd pp))) ?h
      = ?pre' @ map (\<lambda>pp. PackageObj (snd pp)) md @ post"
    by (simp add: heap_set_def list_update_append)
  have step: "route_package_at (fst pp, length pre) (?h, reorganized)
      = Inr (?pre' @ map (\<lambda>pp. PackageObj (snd pp)) md @ ?post',
             obj_set (fst pp) (length ?h) reorganized)"
    unfolding route_package_at_def using get rp set
    by (simp add: alloc_def)
  have upt: "[length pre..<length pre + length (pp # md)]
        = length pre # [length ?pre'..<length ?pre' + length md]"
    using upt_head [of "length pre" "length md"] by simp
  have upt2: "[length pre + length (pp # md) + length post..<
               length pre + length (pp # md) + length post + length (pp # md)]
        = length ?h # [length ?pre' + length md + length ?post'..<
                       length ?pre' + length md + length ?post' + length md]"
    using upt_head [of "length ?h" "length md"] by (simp add: add.commute add.left_commute)
  from Cons.IH [OF rest, of ?pre' ?post' "obj_set (fst pp) (length ?h) reorganized"] step
  show ?case
    unfolding upt upt2
    by (simp add: assign_props_def del: upt_Suc)
qed


lemma read_row:
  assumes "\<And>i. i < length md \<Longrightarrow> heap_get h (b + i) = Some (c (md ! i))"
  shows "map (\<lambda>kv. (fst kv, heap_get h (snd kv))) (zip (obj_keys md) [b..<b + length md])
         = map (\<lambda>pp. (fst pp, Some (c pp))) md"
  by (rule nth_equalityI) (simp_all add: assms)

text \<open>
  The document written for \<^verbatim>\<open>modelsData\<close> holds the package objects as the route projection
  has left them, because the copy that the projection works on leads to the same objects.
\<close>

lemma write_documents_shares_package_objects:
  assumes names: "distinct (obj_keys md)"
    and routes: "\<forall>pp \<in> set md. route_package (snd pp) = Inr (P (snd pp), R (snd pp))"
  shows "write_documents md =
     Inr (map (\<lambda>pp. (fst pp, Some (PackageObj (P (snd pp))))) md,
          map (\<lambda>pp. (fst pp, Some (RoutesObj (R (snd pp))))) md)"
proof -
  let ?n = "length md"
  let ?tobj = "zip (obj_keys md) [0..<?n]"
  let ?pkgs = "map (\<lambda>pp. PackageObj (snd pp)) md"
  let ?h1 = "?pkgs @ [TopObj ?tobj, TopObj ?tobj]"
  let ?reorg = "zip (obj_keys md) [Suc (Suc ?n)..<Suc (Suc ?n) + ?n]"
  let ?h' = "map (\<lambda>pp. PackageObj (P (snd pp))) md @ [TopObj ?tobj, TopObj ?tobj]
               @ map (\<lambda>pp. RoutesObj (R (snd pp))) md"
  let ?h2 = "map (\<lambda>pp. PackageObj (P (snd pp))) md @ [TopObj ?tobj, TopObj ?reorg]
               @ map (\<lambda>pp. RoutesObj (R (snd pp))) md"
  have keys_t: "obj_keys ?tobj = obj_keys md"
    by (rule map_fst_zip) simp
  have keys_r: "obj_keys ?reorg = obj_keys md"
    by (rule map_fst_zip) (simp del: upt_Suc)
  have load: "load_schema md [] = (?n, ?pkgs @ [TopObj ?tobj])"
    using load_packages_eq [of md "[]"] by (simp add: load_schema_def alloc_def)
  have copy: "assign_props [] ?tobj = ?tobj"
    using assign_props_fresh [of "[]" ?tobj] names keys_t by simp
  have assign: "Object_assign_new (?pkgs @ [TopObj ?tobj]) ?n = Inr (Suc ?n, ?h1)"
    by (simp add: Object_assign_new_def heap_get_def nth_append copy alloc_def)
  have loop: "fold_err route_package_at ?tobj (?h1, []) = Inr (?h', assign_props [] ?reorg)"
    using route_loop [OF routes, of "[]" "[TopObj ?tobj, TopObj ?tobj]" "[]"]
    by (simp add: add.commute add.left_commute)
  have reorg: "assign_props [] ?reorg = ?reorg"
    using assign_props_fresh [of "[]" ?reorg] names keys_r by simp
  have over: "assign_props ?tobj ?reorg = ?reorg"
    using assign_props_same_keys [of ?reorg ?tobj "[]"] names keys_t keys_r by simp
  have "heap_set (Suc ?n) (TopObj ?reorg) ?h' = ?h2"
    by (simp add: heap_set_def list_update_append)
  with loop reorg over have process: "processRoutesDataFromModelsData ?h1 (Suc ?n) = Inr ?h2"
    by (simp add: processRoutesDataFromModelsData_def heap_get_def nth_append)
  have models: "JSON_stringify ?h2 ?n = map (\<lambda>pp. (fst pp, Some (PackageObj (P (snd pp))))) md"
  proof -
    have "heap_get ?h2 (0 + i) = Some (PackageObj (P (snd (md ! i))))" if "i < ?n" for i
      using that by (simp add: heap_get_def nth_append)
    from read_row [of md ?h2 0 "\<lambda>pp. PackageObj (P (snd pp))", OF this]
    show ?thesis
      by (simp add: JSON_stringify_def heap_get_def nth_append)
  qed
  have routes': "JSON_stringify ?h2 (Suc ?n) = map (\<lambda>pp. (fst pp, Some (RoutesObj (R (snd pp))))) md"
  proof -
    have "heap_get ?h2 (Suc (Suc ?n) + i) = Some (RoutesObj (R (snd (md ! i))))" if "i < ?n" for i
      using that by (simp add: heap_get_def nth_append)
    from read_row [of md ?h2 "Suc (Suc ?n)" "\<lambda>pp. RoutesObj (R (snd pp))", OF this]
    show ?thesis
      by (simp add: JSON_stringify_def heap_get_def nth_append)
  qed
  from load assign process models routes' show ?thesis
    by (simp add: write_documents_def)
qed

text \<open>For a schema after the segregation, every field of the document is reduced to its
  \<^verbatim>\<open>api\<close> property, and the fields without one are not in the document.\<close>

lemma models_json_is_stripped:
  assumes names: "distinct (obj_keys md)"
    and fields_ok: "\<forall>pp \<in> set md. \<forall>mm \<in> set (snd pp).
        distinct (obj_keys (snd mm)) \<and> (\<forall>fp \<in> set (snd mm). api_ok (snd fp))"
  shows "\<exists>routes. write_documents md =
     Inr (map (\<lambda>pp. (fst pp, Some (PackageObj (map (\<lambda>mm. (fst mm, stripped (snd mm))) (snd pp))))) md,
          routes)"
proof -
  have "\<exists>rp. route_package pkg = Inr (map (\<lambda>mm. (fst mm, stripped (snd mm))) pkg, rp)"
    if "pkg \<in> snd ` set md" for pkg
  proof -
    from that fields_ok have "\<forall>mm \<in> set pkg. distinct (obj_keys (snd mm)) \<and> (\<forall>fp \<in> set (snd mm). api_ok (snd fp))"
      by auto
    then have "\<forall>mm \<in> set pkg. \<exists>e. route_model (snd mm) = Inr (stripped (snd mm), e)"
      using route_model_entry by blast
    from route_package_entries [OF this] show ?thesis by blast
  qed
  then have "\<forall>pkg \<in> snd ` set md. \<exists>rp. route_package pkg = Inr (map (\<lambda>mm. (fst mm, stripped (snd mm))) pkg, rp)"
    by blast
  from bchoice [OF this] obtain R where
    "\<forall>pkg \<in> snd ` set md. route_package pkg = Inr (map (\<lambda>mm. (fst mm, stripped (snd mm))) pkg, R pkg)"
    by blast
  then have "\<forall>pp \<in> set md. route_package (snd pp)
      = Inr ((\<lambda>pkg. map (\<lambda>mm. (fst mm, stripped (snd mm))) pkg) (snd pp), R (snd pp))"
    by simp
  from write_documents_shares_package_objects [OF names this] show ?thesis
    by blast
qed

text \<open>
  C1 (what the code does).  \<^verbatim>\<open>Object.assign({}, modelsData)\<close> copies the references to the
  package objects, so the route projection deletes from the objects that \<^verbatim>\<open>modelsData\<close>
  leads to.  For the workbook of the end-to-end example, with the fields \<^verbatim>\<open>id\<close>,
  \<^verbatim>\<open>name\<close> and \<^verbatim>\<open>createdAt\<close>, what is written to \<^verbatim>\<open>models.json\<close> has the field
  \<^verbatim>\<open>name\<close> only, and maps it to its api object alone; the type, the length and every
  other property are gone, and so are the two fields without an api object.
\<close>

theorem xlsxToJSON_strips_models_json:
  "xlsxToJSON host1 wb_end_to_end =
     Inr ([(''users'', Some (PackageObj
             [(''User'', [(''name'', [(''api'', JObj [(''create'', JStr ''required''),
                                                      (''read'', JStr ''required'')])])])]))],
          [(''users'', Some (RoutesObj
             [(''User'', [(''create'', [''name'']), (''read'', [''name''])])]))])"
  by code_simp

end
